theory Spec2Isabelle
  imports Main "HOL-Library.Monad_Syntax" "HOL-Library.Sublist"
begin

section \<open>Data model\<close>

text \<open>
  The Go package \<^verbatim>\<open>traceroute\<close> (parallel per-TTL probing on Unix, one sequential
  \<^verbatim>\<open>tracert\<close> on Windows).  Go's \<^verbatim>\<open>int\<close> is modelled as \<open>int\<close> (64-bit platforms; the
  only place where the width shows is \<^verbatim>\<open>strconv.Atoi\<close>, whose saturation is written
  out).  \<^verbatim>\<open>float64\<close> is an abstract type \<open>'f\<close> with a zero: the only float operation
  of the package is \<^verbatim>\<open>strconv.ParseFloat\<close>, which is taken as a parameter.
\<close>

record 'f Hop =
  TTL :: int
  IP :: string
  Hostname :: string
  RTT :: 'f
  Success :: bool
  IsFinal :: bool
  IsTimeout :: bool

text \<open>The zero value \<^verbatim>\<open>Hop{}\<close>.\<close>

definition zeroHop :: "('f::zero) Hop" where
  "zeroHop = \<lparr>TTL = 0, IP = [], Hostname = [], RTT = 0,
     Success = False, IsFinal = False, IsTimeout = False\<rparr>"

text \<open>\<^verbatim>\<open>Hop{TTL: ttl, Success: false, IsTimeout: true}\<close>, built by both parsers and by
  the probe goroutine.\<close>

definition timeoutHop :: "int \<Rightarrow> ('f::zero) Hop" where
  "timeoutHop ttl = \<lparr>TTL = ttl, IP = [], Hostname = [], RTT = 0,
     Success = False, IsFinal = False, IsTimeout = True\<rparr>"

record Options =
  MaxHops :: int
  TimeoutMs :: int

definition DefaultOptions :: Options where
  "DefaultOptions = \<lparr>MaxHops = 30, TimeoutMs = 3000\<rparr>"

text \<open>The error values \<^verbatim>\<open>Run\<close> can return; \<open>None\<close> of \<open>error option\<close> is \<^verbatim>\<open>nil\<close>.\<close>

datatype error =
  ErrMaxHopsReached
  | ErrBinaryNotFound
  | ErrUnsupportedPlatform string
  | ErrStart string

section \<open>Library functions of \<^verbatim>\<open>strings\<close> and \<^verbatim>\<open>strconv\<close>\<close>

text \<open>Strings are byte sequences, as Go's are.\<close>

definition HasPrefix :: "string \<Rightarrow> string \<Rightarrow> bool" where
  "HasPrefix s p = (take (length p) s = p)"

fun Contains :: "string \<Rightarrow> string \<Rightarrow> bool" where
  "Contains [] sub = (sub = [])"
| "Contains (c # cs) sub = (HasPrefix (c # cs) sub \<or> Contains cs sub)"

text \<open>\<^verbatim>\<open>strings.Index\<close>: the position of the first occurrence, \<open>None\<close> for \<^verbatim>\<open>-1\<close>.\<close>

fun Index :: "string \<Rightarrow> string \<Rightarrow> nat option" where
  "Index [] sub = (if sub = [] then Some 0 else None)"
| "Index (c # cs) sub =
     (if HasPrefix (c # cs) sub then Some 0 else map_option Suc (Index cs sub))"

text \<open>\<^verbatim>\<open>strings.Split(s, "\n")\<close>: always at least one piece.\<close>

fun splitLines :: "string \<Rightarrow> string list" where
  "splitLines [] = [[]]"
| "splitLines (c # cs) =
     (if c = CHR 0x0A then [] # splitLines cs
      else (case splitLines cs of l # ls \<Rightarrow> (c # l) # ls | [] \<Rightarrow> [[c]]))"

text \<open>\<^verbatim>\<open>strings.Trim(s, "]")\<close> and \<^verbatim>\<open>strings.TrimSuffix(s, ".")\<close>.\<close>

definition TrimChar :: "char \<Rightarrow> string \<Rightarrow> string" where
  "TrimChar c s = rev (dropWhile (\<lambda>x. x = c) (rev (dropWhile (\<lambda>x. x = c) s)))"

definition TrimSuffix :: "string \<Rightarrow> string \<Rightarrow> string" where
  "TrimSuffix s suf =
     (if length suf \<le> length s \<and> drop (length s - length suf) s = suf
      then take (length s - length suf) s else s)"

text \<open>
  \<^verbatim>\<open>strings.TrimSpace\<close> removes leading and trailing white space as Unicode defines it
  (\<^verbatim>\<open>unicode.IsSpace\<close>).  On bytes these are the six ASCII characters and the UTF-8
  encodings of U+0085, U+00A0, U+1680, U+2000..U+200A, U+2028, U+2029, U+202F, U+205F
  and U+3000.
\<close>

definition unicodeSpaces :: "string list" where
  "unicodeSpaces =
     [[CHR 0x09], [CHR 0x0A], [CHR 0x0B], [CHR 0x0C], [CHR 0x0D], [CHR 0x20],
      [CHR 0xC2, CHR 0x85], [CHR 0xC2, CHR 0xA0],
      [CHR 0xE1, CHR 0x9A, CHR 0x80],
      [CHR 0xE2, CHR 0x80, CHR 0x80], [CHR 0xE2, CHR 0x80, CHR 0x81],
      [CHR 0xE2, CHR 0x80, CHR 0x82], [CHR 0xE2, CHR 0x80, CHR 0x83],
      [CHR 0xE2, CHR 0x80, CHR 0x84], [CHR 0xE2, CHR 0x80, CHR 0x85],
      [CHR 0xE2, CHR 0x80, CHR 0x86], [CHR 0xE2, CHR 0x80, CHR 0x87],
      [CHR 0xE2, CHR 0x80, CHR 0x88], [CHR 0xE2, CHR 0x80, CHR 0x89],
      [CHR 0xE2, CHR 0x80, CHR 0x8A],
      [CHR 0xE2, CHR 0x80, CHR 0xA8], [CHR 0xE2, CHR 0x80, CHR 0xA9],
      [CHR 0xE2, CHR 0x80, CHR 0xAF],
      [CHR 0xE2, CHR 0x81, CHR 0x9F],
      [CHR 0xE3, CHR 0x80, CHR 0x80]]"

text \<open>The length of the white-space rune a string starts with, if it starts with one.\<close>

definition leadingSpace :: "string list \<Rightarrow> string \<Rightarrow> nat option" where
  "leadingSpace tbl s = map_option length (find (HasPrefix s) tbl)"

function TrimLeftSpace :: "string list \<Rightarrow> string \<Rightarrow> string" where
  "TrimLeftSpace tbl s =
     (case leadingSpace tbl s of
        None \<Rightarrow> s
      | Some n \<Rightarrow> if n = 0 \<or> s = [] then s else TrimLeftSpace tbl (drop n s))"
  by pat_completeness auto
termination
  by (relation "measure (\<lambda>(tbl, s). length s)") auto

definition TrimSpace :: "string \<Rightarrow> string" where
  "TrimSpace s =
     rev (TrimLeftSpace (map rev unicodeSpaces) (rev (TrimLeftSpace unicodeSpaces s)))"

text \<open>
  \<^verbatim>\<open>strconv.Atoi\<close> on a string of decimal digits (every caller passes the capture of
  \<^verbatim>\<open>(\d+)\<close>): the value, saturated at \<open>2^63 - 1\<close> where it does not fit (the range error
  is dropped by every caller, the saturated value kept).
\<close>

definition digitVal :: "char \<Rightarrow> int" where
  "digitVal c = of_char c - 48"

definition decimal :: "string \<Rightarrow> int" where
  "decimal s = foldl (\<lambda>n c. 10 * n + digitVal c) 0 s"

definition Atoi :: "string \<Rightarrow> int" where
  "Atoi s = (if decimal s > 9223372036854775807 then 9223372036854775807 else decimal s)"

text \<open>\<^verbatim>\<open>strconv.Itoa\<close>.\<close>

fun natDigits :: "nat \<Rightarrow> string" where
  "natDigits n =
     (if n < 10 then [char_of (48 + n)] else natDigits (n div 10) @ [char_of (48 + n mod 10)])"

declare natDigits.simps [simp del]

definition Itoa :: "int \<Rightarrow> string" where
  "Itoa i = (if i < 0 then CHR ''-'' # natDigits (nat (- i)) else natDigits (nat i))"

section \<open>The regular expressions\<close>

text \<open>
  Character classes of Go's \<^verbatim>\<open>regexp\<close> (RE2 syntax, ASCII): \<^verbatim>\<open>\s\<close> is
  \<^verbatim>\<open>[\t\n\f\r ]\<close>, \<^verbatim>\<open>\d\<close> is \<^verbatim>\<open>[0-9]\<close>, \<^verbatim>\<open>\S\<close> is the complement of \<^verbatim>\<open>\s\<close>.
\<close>

definition isSpace :: "char \<Rightarrow> bool" where
  "isSpace c = (c \<in> set [CHR 0x09, CHR 0x0A, CHR 0x0C, CHR 0x0D, CHR 0x20])"

definition isDigit :: "char \<Rightarrow> bool" where
  "isDigit c = (c \<in> set ''0123456789'')"

definition isDigitDot :: "char \<Rightarrow> bool" where
  "isDigitDot c = (isDigit c \<or> c = CHR ''.'')"

definition nonSpace :: "char \<Rightarrow> bool" where
  "nonSpace c = (\<not> isSpace c)"

text \<open>
  The scanners below read a pattern left to right.  \<open>many p\<close> is \<^verbatim>\<open>p*\<close> and \<open>many1 p\<close>
  is \<^verbatim>\<open>p+\<close>, both taking the longest run; \<open>lit\<close> is a literal.  In each pattern of the
  package every repetition is followed by a token that cannot start with a character
  of the repeated class, so the longest run is the only one a match can take, and
  the leftmost-first match of Go's engine is the one the scanner finds.  Each scanner
  returns the matched text and what follows it.
\<close>

definition many :: "(char \<Rightarrow> bool) \<Rightarrow> string \<Rightarrow> string \<times> string" where
  "many p s = (takeWhile p s, dropWhile p s)"

definition many1 :: "(char \<Rightarrow> bool) \<Rightarrow> string \<Rightarrow> (string \<times> string) option" where
  "many1 p s = (if takeWhile p s = [] then None else Some (takeWhile p s, dropWhile p s))"

definition lit :: "string \<Rightarrow> string \<Rightarrow> string option" where
  "lit t s = (if HasPrefix s t then Some (drop (length t) s) else None)"

text \<open>\<^verbatim>\<open>\d+\.\d+\.\d+\.\d+\<close>\<close>

definition dottedQuad :: "string \<Rightarrow> (string \<times> string) option" where
  "dottedQuad s = do {
     (a, s1) \<leftarrow> many1 isDigit s;
     s2 \<leftarrow> lit ''.'' s1;
     (b, s3) \<leftarrow> many1 isDigit s2;
     s4 \<leftarrow> lit ''.'' s3;
     (c, s5) \<leftarrow> many1 isDigit s4;
     s6 \<leftarrow> lit ''.'' s5;
     (d, s7) \<leftarrow> many1 isDigit s6;
     Some (a @ ''.'' @ b @ ''.'' @ c @ ''.'' @ d, s7)
   }"

text \<open>
  \<^verbatim>\<open>reUnixHopNumeric = ^\s*(\d+)\s+(\d+\.\d+\.\d+\.\d+)\s+([\d.]+)\s+ms\<close>.
  The result is \<^verbatim>\<open>FindStringSubmatch\<close>'s \<open>(m[0], m[1], m[2], m[3])\<close>, \<open>None\<close> for \<^verbatim>\<open>nil\<close>.
\<close>

definition reUnixHopNumeric :: "string \<Rightarrow> (string \<times> string \<times> string \<times> string) option" where
  "reUnixHopNumeric line = do {
     let (w0, s0) = many isSpace line;
     (ttl, s1) \<leftarrow> many1 isDigit s0;
     (w1, s2) \<leftarrow> many1 isSpace s1;
     (ip, s3) \<leftarrow> dottedQuad s2;
     (w2, s4) \<leftarrow> many1 isSpace s3;
     (rtt, s5) \<leftarrow> many1 isDigitDot s4;
     (w3, s6) \<leftarrow> many1 isSpace s5;
     s7 \<leftarrow> lit ''ms'' s6;
     Some (w0 @ ttl @ w1 @ ip @ w2 @ rtt @ w3 @ ''ms'', ttl, ip, rtt)
   }"

text \<open>
  \<^verbatim>\<open>reUnixHopNamed = ^\s*(\d+)\s+(\S+)\s+\((\d+\.\d+\.\d+\.\d+)\)\s+([\d.]+)\s+ms\<close>,
  with \<open>(m[0], m[1], m[2], m[3], m[4])\<close>.
\<close>

definition reUnixHopNamed ::
  "string \<Rightarrow> (string \<times> string \<times> string \<times> string \<times> string) option" where
  "reUnixHopNamed line = do {
     let (w0, s0) = many isSpace line;
     (ttl, s1) \<leftarrow> many1 isDigit s0;
     (w1, s2) \<leftarrow> many1 isSpace s1;
     (name, s3) \<leftarrow> many1 nonSpace s2;
     (w2, s4) \<leftarrow> many1 isSpace s3;
     s5 \<leftarrow> lit ''('' s4;
     (ip, s6) \<leftarrow> dottedQuad s5;
     s7 \<leftarrow> lit '')'' s6;
     (w3, s8) \<leftarrow> many1 isSpace s7;
     (rtt, s9) \<leftarrow> many1 isDigitDot s8;
     (w4, s10) \<leftarrow> many1 isSpace s9;
     s11 \<leftarrow> lit ''ms'' s10;
     Some (w0 @ ttl @ w1 @ name @ w2 @ ''('' @ ip @ '')'' @ w3 @ rtt @ w4 @ ''ms'',
           ttl, name, ip, rtt)
   }"

text \<open>\<^verbatim>\<open>reUnixTimeout = ^\s*(\d+)\s+\*\<close> (and \<^verbatim>\<open>reWinTimeout\<close>, the same pattern), with
  \<open>(m[0], m[1])\<close>.\<close>

definition reUnixTimeout :: "string \<Rightarrow> (string \<times> string) option" where
  "reUnixTimeout line = do {
     let (w0, s0) = many isSpace line;
     (ttl, s1) \<leftarrow> many1 isDigit s0;
     (w1, s2) \<leftarrow> many1 isSpace s1;
     s3 \<leftarrow> lit ''*'' s2;
     Some (w0 @ ttl @ w1 @ ''*'', ttl)
   }"

text \<open>\<^verbatim>\<open>FindString\<close>: the text of the match, the empty string when there is none.\<close>

definition FindString :: "(string \<times> 'a) option \<Rightarrow> string" where
  "FindString m = (case m of None \<Rightarrow> [] | Some (m0, _) \<Rightarrow> m0)"

section \<open>The line parsers\<close>

text \<open>The part of \<^verbatim>\<open>parseUnixLine\<close> after the timeout test: the numeric pattern, then the
  named one, then "not a data line".\<close>

definition parseUnixHop :: "(string \<Rightarrow> 'f) \<Rightarrow> string \<Rightarrow> string \<Rightarrow> ('f::zero) Hop \<times> bool" where
  "parseUnixHop pf line destIP =
     (case reUnixHopNumeric line of
        Some (m0, m1, m2, m3) \<Rightarrow>
          (\<lparr>TTL = Atoi m1, IP = m2, Hostname = [], RTT = pf m3, Success = True,
            IsFinal = (destIP \<noteq> [] \<and> m2 = destIP), IsTimeout = False\<rparr>, True)
      | None \<Rightarrow>
     (case reUnixHopNamed line of
        Some (m0, m1, m2, m3, m4) \<Rightarrow>
          (\<lparr>TTL = Atoi m1, IP = m3, Hostname = m2, RTT = pf m4, Success = True,
            IsFinal = (destIP \<noteq> [] \<and> m3 = destIP), IsTimeout = False\<rparr>, True)
      | None \<Rightarrow> (zeroHop, False)))"

definition parseUnixLine :: "(string \<Rightarrow> 'f) \<Rightarrow> string \<Rightarrow> string \<Rightarrow> ('f::zero) Hop \<times> bool" where
  "parseUnixLine pf line destIP =
     (case reUnixTimeout line of
        Some (m0, m1) \<Rightarrow>
          if Contains line ''*'' \<and> FindString (reUnixHopNumeric line) = []
             \<and> FindString (reUnixHopNamed line) = []
          then (timeoutHop (Atoi m1), True)
          else parseUnixHop pf line destIP
      | None \<Rightarrow> parseUnixHop pf line destIP)"

text \<open>
  \<^verbatim>\<open>reWinHop = ^\s*(\d+)\s+(?:<?\d+\s+ms\s+){1,3}\s*(\S+)\<close>.  \<open>winProbe\<close> is one round of
  the group \<^verbatim>\<open><?\d+\s+ms\s+\<close>, \<open>winHost\<close> the tail \<^verbatim>\<open>\s*(\S+)\<close>.  The repetition is
  greedy: \<open>winProbes n\<close> tries one more round (of at most \<open>n\<close>) first and falls back to
  the tail where that fails to match.  The result is \<open>(m[1], m[2])\<close>.
\<close>

definition winProbe :: "string \<Rightarrow> string option" where
  "winProbe s = do {
     let s0 = (case lit ''<'' s of Some r \<Rightarrow> r | None \<Rightarrow> s);
     (d, s1) \<leftarrow> many1 isDigit s0;
     (w1, s2) \<leftarrow> many1 isSpace s1;
     s3 \<leftarrow> lit ''ms'' s2;
     (w2, s4) \<leftarrow> many1 isSpace s3;
     Some s4
   }"

definition winHost :: "string \<Rightarrow> string option" where
  "winHost s = do {
     let (w, s0) = many isSpace s;
     (h, s1) \<leftarrow> many1 nonSpace s0;
     Some h
   }"

fun winProbes :: "nat \<Rightarrow> string \<Rightarrow> string option" where
  "winProbes 0 s = winHost s"
| "winProbes (Suc n) s =
     (case (case winProbe s of Some s' \<Rightarrow> winProbes n s' | None \<Rightarrow> None) of
        Some h \<Rightarrow> Some h
      | None \<Rightarrow> winHost s)"

definition reWinHop :: "string \<Rightarrow> (string \<times> string) option" where
  "reWinHop line = do {
     let (w0, s0) = many isSpace line;
     (ttl, s1) \<leftarrow> many1 isDigit s0;
     (w1, s2) \<leftarrow> many1 isSpace s1;
     s3 \<leftarrow> winProbe s2;
     host \<leftarrow> winProbes 2 s3;
     Some (ttl, host)
   }"

text \<open>\<^verbatim>\<open>reWinRTT = (\d+)\s+ms\<close>, not anchored: group 1 of the leftmost match, which is
  \<^verbatim>\<open>rtts[0][1]\<close> of \<^verbatim>\<open>FindAllStringSubmatch(line, -1)\<close>; \<open>None\<close> when \<^verbatim>\<open>len(rtts) = 0\<close>.\<close>

definition winRTTAt :: "string \<Rightarrow> string option" where
  "winRTTAt s = do {
     (d, s1) \<leftarrow> many1 isDigit s;
     (w, s2) \<leftarrow> many1 isSpace s1;
     s3 \<leftarrow> lit ''ms'' s2;
     Some d
   }"

fun reWinRTT :: "string \<Rightarrow> string option" where
  "reWinRTT [] = None"
| "reWinRTT (c # cs) =
     (case winRTTAt (c # cs) of Some d \<Rightarrow> Some d | None \<Rightarrow> reWinRTT cs)"

definition reWinTimeout :: "string \<Rightarrow> (string \<times> string) option" where
  "reWinTimeout line = reUnixTimeout line"

text \<open>The part of \<^verbatim>\<open>parseWindowsLine\<close> after the timeout test.\<close>

definition parseWindowsHop :: "(string \<Rightarrow> 'f) \<Rightarrow> string \<Rightarrow> string \<Rightarrow> ('f::zero) Hop \<times> bool" where
  "parseWindowsHop pf line destIP =
     (case reWinHop line of
        None \<Rightarrow> (zeroHop, False)
      | Some (m1, m2) \<Rightarrow>
          (let ttl = Atoi m1;
               host = TrimSpace m2;
               rtt = (case reWinRTT line of Some d \<Rightarrow> pf d | None \<Rightarrow> 0);
               (ip, hostname) =
                 (case Index host '' ['' of
                    None \<Rightarrow> (host, [])
                  | Some idx \<Rightarrow> (TrimChar CHR '']'' (drop (idx + 2) host), take idx host))
           in (\<lparr>TTL = ttl, IP = ip, Hostname = hostname, RTT = rtt, Success = True,
                IsFinal = (destIP \<noteq> [] \<and> (ip = destIP \<or> host = destIP)),
                IsTimeout = False\<rparr>, True)))"

definition parseWindowsLine :: "(string \<Rightarrow> 'f) \<Rightarrow> string \<Rightarrow> string \<Rightarrow> ('f::zero) Hop \<times> bool" where
  "parseWindowsLine pf line destIP =
     (case reWinTimeout line of
        Some (m0, m1) \<Rightarrow>
          if Contains line ''*'' then (timeoutHop (Atoi m1), True)
          else parseWindowsHop pf line destIP
      | None \<Rightarrow> parseWindowsHop pf line destIP)"

section \<open>The environment of a run\<close>

text \<open>
  What the package takes from outside: the platform, the library calls that reach
  the file system or the network, and the probing tool.
  \<^item> \<open>GOOS\<close> is \<^verbatim>\<open>runtime.GOOS\<close>.
  \<^item> \<open>LookPath\<close> is \<^verbatim>\<open>exec.LookPath\<close>, \<open>None\<close> where it returns an error.
  \<^item> \<open>ParseIP s\<close> is \<^verbatim>\<open>net.ParseIP(s)\<close>: \<open>None\<close> for \<^verbatim>\<open>nil\<close>, else the address's
    \<^verbatim>\<open>String()\<close> and whether \<^verbatim>\<open>To4()\<close> is not \<^verbatim>\<open>nil\<close>.
  \<^item> \<open>LookupHost\<close> and \<open>LookupAddr\<close> are \<^verbatim>\<open>net.LookupHost\<close> and \<^verbatim>\<open>net.LookupAddr\<close>,
    \<open>None\<close> where they return an error.
  \<^item> \<open>ParseFloat s\<close> is the value \<^verbatim>\<open>strconv.ParseFloat(s, 64)\<close> returns (its error is
    dropped by every caller).
  \<^item> \<open>Output binary args\<close> is the standard output \<^verbatim>\<open>cmd.Output()\<close> returns for the
    command (its error is dropped by the caller).
  \<^item> \<open>StartScan binary args\<close> is the sequential run's process: the error of
    \<^verbatim>\<open>StdoutPipe\<close> or \<^verbatim>\<open>Start\<close>, or the lines \<^verbatim>\<open>bufio.Scanner\<close> yields until
    \<^verbatim>\<open>Scan\<close> returns false.
  \<^item> \<open>mapOrder\<close> stands for the order in which \<^verbatim>\<open>range\<close> visits a map, which the Go
    runtime chooses: the index of the key visited first.
\<close>

record 'f env =
  GOOS :: string
  LookPath :: "string \<Rightarrow> string option"
  ParseIP :: "string \<Rightarrow> (string \<times> bool) option"
  LookupHost :: "string \<Rightarrow> string list option"
  LookupAddr :: "string \<Rightarrow> string list option"
  ParseFloat :: "string \<Rightarrow> 'f"
  Output :: "string \<Rightarrow> string list \<Rightarrow> string"
  StartScan :: "string \<Rightarrow> string list \<Rightarrow> error + string list"
  mapOrder :: nat

text \<open>
  The context.  Cancellation is an event in time, and the code observes it at
  certain points of its run; the points are numbered in the order in which a run
  reaches them.  \<open>cancelAt = Some k\<close> says that the context is cancelled from point
  \<open>k\<close> on, \<open>None\<close> that it never is.  A \<^verbatim>\<open>select\<close> between a send and \<^verbatim>\<open>ctx.Done()\<close>
  takes the send while the context is live (the receiver is assumed to receive);
  once it is cancelled both cases are ready and the runtime picks one: \<open>pickDone t\<close>
  says that at point \<open>t\<close> it picks \<^verbatim>\<open>ctx.Done()\<close>.
\<close>

record Context =
  cancelAt :: "nat option"
  pickDone :: "nat \<Rightarrow> bool"

definition ctxErr :: "Context \<Rightarrow> nat \<Rightarrow> bool" where
  "ctxErr c t = (case cancelAt c of None \<Rightarrow> False | Some k \<Rightarrow> k \<le> t)"

definition selectDone :: "Context \<Rightarrow> nat \<Rightarrow> bool" where
  "selectDone c t = (ctxErr c t \<and> pickDone c t)"

text \<open>What a call does besides sending hops: it returns an error value (\<open>None\<close> is
  \<^verbatim>\<open>nil\<close>) or it panics.\<close>

datatype outcome = Returns "error option" | Panics

section \<open>Helpers\<close>

definition tracerouteBinary :: "'f env \<Rightarrow> error + string" where
  "tracerouteBinary e =
     (if GOOS e = ''darwin'' then Inr ''/usr/sbin/traceroute''
      else if GOOS e = ''linux'' then
        (if LookPath e ''/usr/bin/traceroute'' \<noteq> None then Inr ''/usr/bin/traceroute''
         else if LookPath e ''/usr/sbin/traceroute'' \<noteq> None then Inr ''/usr/sbin/traceroute''
         else (case LookPath e ''traceroute'' of
                 Some p \<Rightarrow> Inr p
               | None \<Rightarrow> Inl ErrBinaryNotFound))
      else Inl (ErrUnsupportedPlatform (GOOS e)))"

text \<open>
  \<^verbatim>\<open>resolveIPs\<close> returns a \<^verbatim>\<open>map[string]bool\<close> used as a set; the model keeps its keys
  as a list without duplicates.
\<close>

definition resolveIPs :: "'f env \<Rightarrow> string \<Rightarrow> string list" where
  "resolveIPs e host =
     (case ParseIP e host of
        Some (str, v4) \<Rightarrow> [str]
      | None \<Rightarrow>
        (case LookupHost e host of
           None \<Rightarrow> []
         | Some addrs \<Rightarrow>
             remdups (filter (\<lambda>a. case ParseIP e a of Some (str, v4) \<Rightarrow> v4 | None \<Rightarrow> False)
                        addrs)))"

definition resolveIP :: "'f env \<Rightarrow> string \<Rightarrow> string" where
  "resolveIP e host =
     (let set = resolveIPs e host
      in if set = [] then host else set ! (mapOrder e mod length set))"

text \<open>Go's integer division truncates toward zero.\<close>

definition goDiv :: "int \<Rightarrow> int \<Rightarrow> int" where
  "goDiv a b = sgn a * sgn b * (\<bar>a\<bar> div \<bar>b\<bar>)"

text \<open>The first lines of \<^verbatim>\<open>runParallel\<close> and of \<^verbatim>\<open>runSequential\<close>.\<close>

definition timeoutSecs :: "Options \<Rightarrow> int" where
  "timeoutSecs opts = (let t = goDiv (TimeoutMs opts) 1000 in if t < 1 then 1 else t)"

section \<open>The parallel strategy\<close>

text \<open>The arguments of the probe for one TTL.\<close>

definition probeArgs :: "int \<Rightarrow> int \<Rightarrow> string \<Rightarrow> string list" where
  "probeArgs ttl secs dest =
     [''-f'', Itoa ttl, ''-m'', Itoa ttl, ''-q'', ''1'', ''-w'', Itoa secs, ''-n'', dest]"

text \<open>
  The loop of a probe goroutine over the lines of the output: the first line that
  \<^verbatim>\<open>parseUnixLine\<close> accepts gives the hop; \<^verbatim>\<open>var hop Hop\<close> stays the zero value where
  there is none.
\<close>

fun firstHop :: "(string \<Rightarrow> 'f) \<Rightarrow> string \<Rightarrow> string list \<Rightarrow> ('f::zero) Hop" where
  "firstHop pf destIP [] = zeroHop"
| "firstHop pf destIP (l # ls) =
     (let line = TrimSpace l
      in if line = [] \<or> HasPrefix line ''traceroute'' then firstHop pf destIP ls
         else (case parseUnixLine pf line destIP of
                 (h, True) \<Rightarrow> h
               | (h, False) \<Rightarrow> firstHop pf destIP ls))"

text \<open>The reverse lookup of a probe goroutine.\<close>

definition reverseDNS :: "('f::zero) env \<Rightarrow> 'f Hop \<Rightarrow> 'f Hop" where
  "reverseDNS e hop =
     (if Success hop \<and> Hostname hop = [] \<and> IP hop \<noteq> [] then
        (case LookupAddr e (IP hop) of
           Some (n # ns) \<Rightarrow> hop\<lparr>Hostname := TrimSuffix n ''.''\<rparr>
         | _ \<Rightarrow> hop)
      else hop)"

text \<open>The body of the goroutine for one TTL: the hop it stores in \<^verbatim>\<open>results[ttl-1]\<close>.\<close>

definition probe :: "('f::zero) env \<Rightarrow> string \<Rightarrow> int \<Rightarrow> string \<Rightarrow> string \<Rightarrow> int \<Rightarrow> 'f Hop" where
  "probe e binary secs dest destIP ttl =
     (let out = Output e binary (probeArgs ttl secs dest);
          hop = firstHop (ParseFloat e) destIP (splitLines out);
          hop = (if TTL hop = 0 then timeoutHop ttl else hop)
      in reverseDNS e hop)"

text \<open>
  The launch loop, \<^verbatim>\<open>for ttl := 1; ttl <= opts.MaxHops; ttl++\<close>, with the slots it
  leaves behind once all goroutines are done: slot \<open>ttl - 1\<close> holds \<open>Some\<close> hop where a
  goroutine was started (\<^verbatim>\<open>gotResult\<close> is true) and \<open>None\<close> where the loop had left
  before.  The check of the context for \<open>ttl\<close> is point \<open>ttl - 1\<close>.
\<close>

function launchLoop :: "Context \<Rightarrow> (int \<Rightarrow> 'f Hop) \<Rightarrow> int \<Rightarrow> int \<Rightarrow> 'f Hop option list" where
  "launchLoop c p ttl maxHops =
     (if ttl \<le> maxHops then
        (if ctxErr c (nat (ttl - 1)) then replicate (nat (maxHops - ttl + 1)) None
         else Some (p ttl) # launchLoop c p (ttl + 1) maxHops)
      else [])"
  by pat_completeness auto
termination
  by (relation "measure (\<lambda>(c, p, ttl, maxHops). nat (maxHops + 1 - ttl))") auto

declare launchLoop.simps [simp del]

text \<open>The first loop of the reconciliation: \<^verbatim>\<open>trueFinalTTL\<close>.\<close>

definition looksFinal :: "string list \<Rightarrow> 'f Hop \<Rightarrow> bool" where
  "looksFinal destIPs h =
     (Success h \<and> (IsFinal h \<or> (length destIPs > 0 \<and> IP h \<in> set destIPs)))"

fun trueFinalTTL :: "string list \<Rightarrow> 'f Hop option list \<Rightarrow> int" where
  "trueFinalTTL destIPs [] = 0"
| "trueFinalTTL destIPs (None # rs) = trueFinalTTL destIPs rs"
| "trueFinalTTL destIPs (Some h # rs) =
     (if looksFinal destIPs h then TTL h else trueFinalTTL destIPs rs)"

text \<open>
  The second loop: the hops sent on the caller's channel, in the order sent, and
  whether the loop left through \<^verbatim>\<open>case <-ctx.Done(): return nil\<close>.  The \<^verbatim>\<open>select\<close> for
  slot \<open>i\<close> is point \<open>t\<close>, counted on from the launch loop's points.
\<close>

fun emitLoop :: "Context \<Rightarrow> nat \<Rightarrow> int \<Rightarrow> 'f Hop option list \<Rightarrow> 'f Hop list \<times> bool" where
  "emitLoop c t tf [] = ([], False)"
| "emitLoop c t tf (None # rs) = emitLoop c (Suc t) tf rs"
| "emitLoop c t tf (Some h # rs) =
     (let hop = h\<lparr>IsFinal := (tf > 0 \<and> TTL h = tf)\<rparr>
      in if selectDone c t then ([], True)
         else if IsFinal hop then ([hop], False)
         else (case emitLoop c (Suc t) tf rs of (sent, done) \<Rightarrow> (hop # sent, done)))"

text \<open>
  \<^verbatim>\<open>runParallel\<close>: the hops sent and the outcome.  \<^verbatim>\<open>make([]Hop, opts.MaxHops)\<close> panics
  on a negative length.
\<close>

definition collect :: "Context \<Rightarrow> ('f::zero) env \<Rightarrow> string \<Rightarrow> string \<Rightarrow> Options \<Rightarrow> 'f Hop option list" where
  "collect c e binary dest opts =
     launchLoop c (probe e binary (timeoutSecs opts) dest (resolveIP e dest)) 1 (MaxHops opts)"

definition runParallel ::
  "Context \<Rightarrow> ('f::zero) env \<Rightarrow> string \<Rightarrow> Options \<Rightarrow> 'f Hop list \<times> outcome" where
  "runParallel c e dest opts =
     (case tracerouteBinary e of
        Inl err \<Rightarrow> ([], Returns (Some err))
      | Inr binary \<Rightarrow>
          if MaxHops opts < 0 then ([], Panics)
          else
            (let destIPs = resolveIPs e dest;
                 results = collect c e binary dest opts;
                 n = nat (MaxHops opts);
                 tf = trueFinalTTL destIPs results;
                 (sent, done) = emitLoop c n tf results
             in if done then (sent, Returns None)
                else if ctxErr c (2 * n) then (sent, Returns None)
                else if tf = 0 then (sent, Returns (Some ErrMaxHopsReached))
                else (sent, Returns None)))"

section \<open>The sequential strategy\<close>

text \<open>The command \<^verbatim>\<open>runSequential\<close> builds, or the error it returns before.\<close>

definition sequentialCommand :: "'f env \<Rightarrow> string \<Rightarrow> Options \<Rightarrow> error + string \<times> string list" where
  "sequentialCommand e dest opts =
     (if GOOS e = ''windows'' then
        Inr (''tracert'', [''-h'', Itoa (MaxHops opts), ''-w'', Itoa (TimeoutMs opts), dest])
      else
        (case tracerouteBinary e of
           Inl err \<Rightarrow> Inl err
         | Inr b \<Rightarrow>
             Inr (b, [''-m'', Itoa (MaxHops opts), ''-w'', Itoa (timeoutSecs opts),
                      ''-q'', ''1'', dest])))"

text \<open>
  How the scanning loop ends: through \<^verbatim>\<open>case <-ctx.Done(): ... return nil\<close>, or by
  falling out of the loop (the scanner has no more lines, or \<^verbatim>\<open>break\<close> at a final
  hop) with \<^verbatim>\<open>reachedDest\<close> and \<^verbatim>\<open>lastTTL\<close>.
\<close>

datatype scanEnd = Killed | Left bool int

text \<open>The loop \<^verbatim>\<open>for scanner.Scan()\<close>; the \<^verbatim>\<open>select\<close> at the top of the round for the
  \<open>t\<close>-th line is point \<open>t\<close>.\<close>

fun scanLoop ::
  "Context \<Rightarrow> bool \<Rightarrow> (string \<Rightarrow> 'f) \<Rightarrow> string \<Rightarrow> nat \<Rightarrow> int \<Rightarrow> string list
     \<Rightarrow> ('f::zero) Hop list \<times> scanEnd" where
  "scanLoop c windows pf destIP t lastTTL [] = ([], Left False lastTTL)"
| "scanLoop c windows pf destIP t lastTTL (line # rest) =
     (if ctxErr c t then ([], Killed)
      else if line = [] \<or> HasPrefix (TrimSpace line) ''traceroute''
                \<or> HasPrefix (TrimSpace line) ''Tracing''
        then scanLoop c windows pf destIP (Suc t) lastTTL rest
      else
        (case (if windows then parseWindowsLine pf line destIP
               else parseUnixLine pf line destIP) of
           (hop, False) \<Rightarrow> scanLoop c windows pf destIP (Suc t) lastTTL rest
         | (hop, True) \<Rightarrow>
             (let lastTTL' = (if TTL hop > lastTTL then TTL hop else lastTTL)
              in if IsFinal hop then ([hop], Left True lastTTL')
                 else (case scanLoop c windows pf destIP (Suc t) lastTTL' rest of
                         (sent, x) \<Rightarrow> (hop # sent, x)))))"

definition runSequential ::
  "Context \<Rightarrow> ('f::zero) env \<Rightarrow> string \<Rightarrow> Options \<Rightarrow> 'f Hop list \<times> outcome" where
  "runSequential c e dest opts =
     (case sequentialCommand e dest opts of
        Inl err \<Rightarrow> ([], Returns (Some err))
      | Inr (binary, args) \<Rightarrow>
        (case StartScan e binary args of
           Inl err \<Rightarrow> ([], Returns (Some err))
         | Inr lines \<Rightarrow>
             (case scanLoop c (GOOS e = ''windows'') (ParseFloat e) (resolveIP e dest) 0 0 lines of
                (sent, Killed) \<Rightarrow> (sent, Returns None)
              | (sent, Left reachedDest lastTTL) \<Rightarrow>
                  if \<not> reachedDest \<and> lastTTL \<ge> MaxHops opts
                  then (sent, Returns (Some ErrMaxHopsReached))
                  else (sent, Returns None))))"

section \<open>The entry point\<close>

text \<open>\<^verbatim>\<open>Run\<close>; \<open>None\<close> for \<^verbatim>\<open>opts == nil\<close>.\<close>

definition Run ::
  "Context \<Rightarrow> ('f::zero) env \<Rightarrow> string \<Rightarrow> Options option \<Rightarrow> 'f Hop list \<times> outcome" where
  "Run c e dest opts =
     (let opts = (case opts of None \<Rightarrow> DefaultOptions | Some given \<Rightarrow> given)
      in if GOOS e = ''windows'' then runSequential c e dest opts
         else runParallel c e dest opts)"

section \<open>Reading a run\<close>

text \<open>The hops the goroutines left in the slots, in slot order.\<close>

fun got :: "'a option list \<Rightarrow> 'a list" where
  "got [] = []"
| "got (None # rs) = got rs"
| "got (Some h # rs) = h # got rs"

text \<open>The value that follows a flag on a command line.\<close>

fun flagValue :: "string \<Rightarrow> string list \<Rightarrow> string option" where
  "flagValue f (a # b # rest) = (if a = f then Some b else flagValue f (b # rest))"
| "flagValue f rest = None"

text \<open>
  The per-hop wait a command line asks of the probing tool, in milliseconds.  This
  is the tools' reading of \<^verbatim>\<open>-w\<close>, not code of the package: \<^verbatim>\<open>traceroute\<close> takes
  seconds, Windows' \<^verbatim>\<open>tracert\<close> takes milliseconds.
\<close>

definition perHopWaitMs :: "bool \<Rightarrow> string list \<Rightarrow> int option" where
  "perHopWaitMs tracert args =
     (case flagValue ''-w'' args of
        None \<Rightarrow> None
      | Some v \<Rightarrow>
          if v \<noteq> [] \<and> list_all isDigit v
          then Some (if tracert then decimal v else 1000 * decimal v)
          else None)"

text \<open>The test of the scanning loop for lines it skips unparsed, and its choice of
  the parser.\<close>

definition skipped :: "string \<Rightarrow> bool" where
  "skipped line =
     (line = [] \<or> HasPrefix (TrimSpace line) ''traceroute''
      \<or> HasPrefix (TrimSpace line) ''Tracing'')"

definition platformParse ::
  "bool \<Rightarrow> (string \<Rightarrow> 'f) \<Rightarrow> string \<Rightarrow> string \<Rightarrow> ('f::zero) Hop \<times> bool" where
  "platformParse windows pf line destIP =
     (if windows then parseWindowsLine pf line destIP else parseUnixLine pf line destIP)"

text \<open>A list of hops up to and including its first final hop.\<close>

fun uptoFinal :: "'f Hop list \<Rightarrow> 'f Hop list" where
  "uptoFinal [] = []"
| "uptoFinal (h # hs) = (if IsFinal h then [h] else h # uptoFinal hs)"

section \<open>Example runs\<close>

text \<open>Concrete environments and contexts, for evaluating the functions above.\<close>

definition quietEnv :: "string \<Rightarrow> int env" where
  "quietEnv os = \<lparr>GOOS = os, LookPath = (\<lambda>p. Some p), ParseIP = (\<lambda>s. None),
     LookupHost = (\<lambda>s. None), LookupAddr = (\<lambda>s. None), ParseFloat = (\<lambda>s. 0),
     Output = (\<lambda>b a. []), StartScan = (\<lambda>b a. Inr []), mapOrder = 0\<rparr>"

definition neverCancelled :: Context where
  "neverCancelled = \<lparr>cancelAt = None, pickDone = (\<lambda>t. False)\<rparr>"

text \<open>A \<^verbatim>\<open>tracert\<close> that prints its banner and one hop, and ends.\<close>

definition seqDemoEnv :: "int env" where
  "seqDemoEnv = (quietEnv ''windows'')\<lparr>StartScan :=
      (\<lambda>b a. Inr [''Tracing route to example.com'',
                   ''  1    <1 ms    <1 ms    <1 ms  10.0.0.1''])\<rparr>"

text \<open>A resolver that knows one name with an IPv4 and an IPv6 address.\<close>

definition resolverEnv :: "int env" where
  "resolverEnv = (quietEnv ''linux'')\<lparr>
      ParseIP := (\<lambda>s. if s = ''93.184.216.34'' then Some (s, True)
                      else if s = ''2606:2800:21f:cb07:6820:80da:af6b:8b2c'' then Some (s, False)
                      else None),
      LookupHost := (\<lambda>s. if s = ''example.com''
                          then Some [''93.184.216.34'', ''2606:2800:21f:cb07:6820:80da:af6b:8b2c'']
                          else None)\<rparr>"

text \<open>A \<^verbatim>\<open>tracert\<close> run with \<^verbatim>\<open>-h 1\<close> whose only hop times out.\<close>

definition lastHopEnv :: "int env" where
  "lastHopEnv = (quietEnv ''windows'')\<lparr>StartScan :=
      (\<lambda>b a. Inr [''  1     *        *        *     Request timed out.''])\<rparr>"

text \<open>The context is cancelled after the first line has been handled.\<close>

definition cancelledAfterFirstLine :: Context where
  "cancelledAfterFirstLine = \<lparr>cancelAt = Some 1, pickDone = (\<lambda>t. True)\<rparr>"

text \<open>A context that is cancelled when the launch loop of a run with \<open>MaxHops = 10\<close>
  has started all probes; the sending loop takes the send twice and then
  \<^verbatim>\<open>ctx.Done()\<close>.\<close>

definition cancelledWhileSending :: Context where
  "cancelledWhileSending = \<lparr>cancelAt = Some 10, pickDone = (\<lambda>t. 12 \<le> t)\<rparr>"

text \<open>
  The scenario of the specification: the destination is \<^verbatim>\<open>93.184.216.34\<close>; the probes
  of the TTLs 1 to 5 are answered by routers, those of 6 and 9 by the destination,
  the others time out.  The tool is told the TTL with \<^verbatim>\<open>-f\<close>.
\<close>

definition scenarioOutput :: "string \<Rightarrow> string" where
  "scenarioOutput t =
     (if t \<in> set [''6'', ''9'']
        then '' '' @ t @ ''  93.184.216.34  11.5 ms'' @ [CHR 0x0A]
      else if t \<in> set [''1'', ''2'', ''3'', ''4'', ''5'']
        then ''traceroute to 93.184.216.34 (93.184.216.34), 30 hops max''
               @ [CHR 0x0A] @ '' '' @ t @ ''  10.0.0.'' @ t @ ''  1.5 ms'' @ [CHR 0x0A]
      else '' '' @ t @ ''  *'' @ [CHR 0x0A])"

definition scenarioEnv :: "int env" where
  "scenarioEnv = (quietEnv ''linux'')\<lparr>
      ParseIP := (\<lambda>s. if s = ''93.184.216.34'' then Some (s, True) else None),
      Output := (\<lambda>b args. case flagValue ''-f'' args of
                             Some t \<Rightarrow> scenarioOutput t
                           | None \<Rightarrow> [])\<rparr>"

definition scenarioOptions :: Options where
  "scenarioOptions = \<lparr>MaxHops = 10, TimeoutMs = 3000\<rparr>"

text \<open>A tool that answers the probe of TTL 1 with a line of hop 9 and the probe of
  TTL 2 with a line of hop 2, from the destination.\<close>

definition strayEnv :: "int env" where
  "strayEnv = (quietEnv ''linux'')\<lparr>
      ParseIP := (\<lambda>s. if s = ''93.184.216.34'' then Some (s, True) else None),
      Output := (\<lambda>b args. case flagValue ''-f'' args of
                             Some t \<Rightarrow> (if t = ''1'' then '' 9  10.0.0.1  1.5 ms''
                                        else '' 2  93.184.216.34  11.5 ms'')
                           | None \<Rightarrow> [])\<rparr>"

text \<open>A tool that answers the probe of TTL 1 with a timeout line of hop 2.\<close>

definition strayTimeoutEnv :: "int env" where
  "strayTimeoutEnv = (quietEnv ''linux'')\<lparr>
      ParseIP := (\<lambda>s. if s = ''93.184.216.34'' then Some (s, True) else None),
      Output := (\<lambda>b args. case flagValue ''-f'' args of
                             Some t \<Rightarrow> (if t = ''1'' then '' 2  *''
                                        else '' 2  93.184.216.34  11.5 ms'')
                           | None \<Rightarrow> [])\<rparr>"

text \<open>The second scenario of the specification: \<open>MaxHops = 3\<close> and no probe is
  answered; the third probe does not even print a line.\<close>

definition timeoutEnv :: "int env" where
  "timeoutEnv = (quietEnv ''linux'')\<lparr>
      Output := (\<lambda>b args. case flagValue ''-f'' args of
                             Some t \<Rightarrow> (if t = ''3'' then [] else '' '' @ t @ ''  *'' @ [CHR 0x0A])
                           | None \<Rightarrow> [])\<rparr>"

definition timeoutOptions :: Options where
  "timeoutOptions = \<lparr>MaxHops = 3, TimeoutMs = 3000\<rparr>"

section \<open>The line parsers: properties\<close>

lemma many1_Some_nonempty: "many1 p s = Some (a, r) \<Longrightarrow> a \<noteq> []"
  by (auto simp: many1_def split: if_splits)

lemma reUnixHopNumeric_m0: "reUnixHopNumeric line = Some (m0, m1, m2, m3) \<Longrightarrow> m0 \<noteq> []"
  unfolding reUnixHopNumeric_def
  by (auto simp: Let_def split: prod.splits Option.bind_splits dest: many1_Some_nonempty)

lemma reUnixHopNamed_m0: "reUnixHopNamed line = Some (m0, m1, m2, m3, m4) \<Longrightarrow> m0 \<noteq> []"
  unfolding reUnixHopNamed_def
  by (auto simp: Let_def split: prod.splits Option.bind_splits dest: many1_Some_nonempty)

text \<open>A match of either hop pattern is never empty, so \<^verbatim>\<open>FindString(line) == ""\<close> tests
  for "no match".\<close>

lemma FindString_numeric:
  "(FindString (reUnixHopNumeric line) = []) = (reUnixHopNumeric line = None)"
  by (cases "reUnixHopNumeric line") (auto simp: FindString_def dest: reUnixHopNumeric_m0)

lemma FindString_named:
  "(FindString (reUnixHopNamed line) = []) = (reUnixHopNamed line = None)"
  by (cases "reUnixHopNamed line") (auto simp: FindString_def dest: reUnixHopNamed_m0)





lemmas scan_defs =
  reUnixTimeout_def reUnixHopNamed_def reUnixHopNumeric_def dottedQuad_def
  many_def many1_def lit_def HasPrefix_def FindString_def
  isSpace_def isDigit_def nonSpace_def isDigitDot_def








text \<open>
  Claim C7.  A line that matches none of the patterns of its parser is "not a data
  line": the parser returns the zero hop with \<open>ok = False\<close>, and neither parser has
  an error result.  Such a line is skipped and the run goes on: the scanning loop of
  the sequential strategy continues with the next line, on either platform, and so
  does the loop of a probe goroutine over the lines of its output.
\<close>

theorem unrecognized_line_is_skipped:
  "(reUnixTimeout line = None \<and> reUnixHopNumeric line = None \<and> reUnixHopNamed line = None
      \<longrightarrow> parseUnixLine pf line destIP = (zeroHop, False)
          \<and> (\<not> ctxErr c t \<longrightarrow>
                scanLoop c False pf destIP t lt (line # rest)
                  = scanLoop c False pf destIP (Suc t) lt rest))
   \<and> (reWinTimeout line = None \<and> reWinHop line = None
      \<longrightarrow> parseWindowsLine pf line destIP = (zeroHop, False)
          \<and> (\<not> ctxErr c t \<longrightarrow>
                scanLoop c True pf destIP t lt (line # rest)
                  = scanLoop c True pf destIP (Suc t) lt rest))
   \<and> (reUnixTimeout (TrimSpace line) = None \<and> reUnixHopNumeric (TrimSpace line) = None
        \<and> reUnixHopNamed (TrimSpace line) = None
      \<longrightarrow> firstHop pf destIP (line # rest) = firstHop pf destIP rest)"
proof -
  have u: "parseUnixLine pf l destIP = (zeroHop, False)"
    if "reUnixTimeout l = None \<and> reUnixHopNumeric l = None \<and> reUnixHopNamed l = None" for l
    using that by (simp add: parseUnixLine_def parseUnixHop_def)
  have w: "parseWindowsLine pf line destIP = (zeroHop, False)"
    if "reWinTimeout line = None \<and> reWinHop line = None"
    using that by (simp add: parseWindowsLine_def parseWindowsHop_def)
  have su: "scanLoop c False pf destIP t lt (line # rest)
                  = scanLoop c False pf destIP (Suc t) lt rest"
    if "parseUnixLine pf line destIP = (zeroHop, False)" "\<not> ctxErr c t"
    using that by simp
  have sw: "scanLoop c True pf destIP t lt (line # rest)
                  = scanLoop c True pf destIP (Suc t) lt rest"
    if "parseWindowsLine pf line destIP = (zeroHop, False)" "\<not> ctxErr c t"
    using that by simp
  have f: "firstHop pf destIP (line # rest) = firstHop pf destIP rest"
    if "parseUnixLine pf (TrimSpace line) destIP = (zeroHop, False)"
    using that by (simp add: Let_def)
  from u[of line] u[of "TrimSpace line"] w su sw f show ?thesis by blast
qed

text \<open>A warning before a hop line, and \<^verbatim>\<open>tracert\<close>'s closing line before one: the hop
  line after the unrecognized line is still parsed and sent.\<close>

theorem unrecognized_line_is_skipped_witness:
  "parseUnixLine (\<lambda>s. 0::int) ''Warning: multiple addresses'' ''1.2.3.4'' = (zeroHop, False)
   \<and> firstHop (\<lambda>s. 0::int) ''1.2.3.4'' [''Warning: multiple addresses'', '' 3  10.0.0.3  1.5 ms'']
       = \<lparr>TTL = 3, IP = ''10.0.0.3'', Hostname = [], RTT = 0, Success = True,
           IsFinal = False, IsTimeout = False\<rparr>
   \<and> scanLoop neverCancelled False (\<lambda>s. 0::int) ''1.2.3.4'' 0 0
         [''Warning: multiple addresses'', '' 3  10.0.0.3  1.5 ms'']
       = ([\<lparr>TTL = 3, IP = ''10.0.0.3'', Hostname = [], RTT = 0, Success = True,
            IsFinal = False, IsTimeout = False\<rparr>], Left False 3)
   \<and> parseWindowsLine (\<lambda>s. 0::int) ''Trace complete.'' ''1.2.3.4'' = (zeroHop, False)
   \<and> scanLoop neverCancelled True (\<lambda>s. 0::int) ''1.2.3.4'' 0 0
         [''Trace complete.'', ''  3    12 ms    11 ms     9 ms  10.0.0.3'']
       = ([\<lparr>TTL = 3, IP = ''10.0.0.3'', Hostname = [], RTT = 0, Success = True,
            IsFinal = False, IsTimeout = False\<rparr>], Left False 3)"
proof -
  have u: "reUnixTimeout ''Warning: multiple addresses'' = None
      \<and> reUnixHopNumeric ''Warning: multiple addresses'' = None
      \<and> reUnixHopNamed ''Warning: multiple addresses'' = None"
    by (simp add: scan_defs)
  have tr: "TrimSpace ''Warning: multiple addresses'' = ''Warning: multiple addresses''"
    by code_simp
  have w: "reWinTimeout ''Trace complete.'' = None \<and> reWinHop ''Trace complete.'' = None"
    by (simp add: reWinTimeout_def reWinHop_def scan_defs)
  have live: "\<not> ctxErr neverCancelled 0" by (simp add: ctxErr_def neverCancelled_def)
  have f1: "firstHop (\<lambda>s. 0::int) ''1.2.3.4'' ['' 3  10.0.0.3  1.5 ms'']
       = \<lparr>TTL = 3, IP = ''10.0.0.3'', Hostname = [], RTT = 0, Success = True,
           IsFinal = False, IsTimeout = False\<rparr>"
    by code_simp
  have s1: "scanLoop neverCancelled False (\<lambda>s. 0::int) ''1.2.3.4'' (Suc 0) 0
         ['' 3  10.0.0.3  1.5 ms'']
       = ([\<lparr>TTL = 3, IP = ''10.0.0.3'', Hostname = [], RTT = 0, Success = True,
            IsFinal = False, IsTimeout = False\<rparr>], Left False 3)"
    by code_simp
  have s2: "scanLoop neverCancelled True (\<lambda>s. 0::int) ''1.2.3.4'' (Suc 0) 0
         [''  3    12 ms    11 ms     9 ms  10.0.0.3'']
       = ([\<lparr>TTL = 3, IP = ''10.0.0.3'', Hostname = [], RTT = 0, Success = True,
            IsFinal = False, IsTimeout = False\<rparr>], Left False 3)"
    by code_simp
  note r1 = unrecognized_line_is_skipped[of "''Warning: multiple addresses''" "\<lambda>s. 0::int"
      "''1.2.3.4''" neverCancelled 0 0 "['' 3  10.0.0.3  1.5 ms'']"]
  note r2 = unrecognized_line_is_skipped[of "''Trace complete.''" "\<lambda>s. 0::int"
      "''1.2.3.4''" neverCancelled 0 0 "[''  3    12 ms    11 ms     9 ms  10.0.0.3'']"]
  from r1 u tr live f1 s1 have a:
    "parseUnixLine (\<lambda>s. 0::int) ''Warning: multiple addresses'' ''1.2.3.4'' = (zeroHop, False)"
    "firstHop (\<lambda>s. 0::int) ''1.2.3.4'' [''Warning: multiple addresses'', '' 3  10.0.0.3  1.5 ms'']
       = \<lparr>TTL = 3, IP = ''10.0.0.3'', Hostname = [], RTT = 0, Success = True,
           IsFinal = False, IsTimeout = False\<rparr>"
    "scanLoop neverCancelled False (\<lambda>s. 0::int) ''1.2.3.4'' 0 0
         [''Warning: multiple addresses'', '' 3  10.0.0.3  1.5 ms'']
       = ([\<lparr>TTL = 3, IP = ''10.0.0.3'', Hostname = [], RTT = 0, Success = True,
            IsFinal = False, IsTimeout = False\<rparr>], Left False 3)"
    by metis+
  from r2 w live s2 have b:
    "parseWindowsLine (\<lambda>s. 0::int) ''Trace complete.'' ''1.2.3.4'' = (zeroHop, False)"
    "scanLoop neverCancelled True (\<lambda>s. 0::int) ''1.2.3.4'' 0 0
         [''Trace complete.'', ''  3    12 ms    11 ms     9 ms  10.0.0.3'']
       = ([\<lparr>TTL = 3, IP = ''10.0.0.3'', Hostname = [], RTT = 0, Success = True,
            IsFinal = False, IsTimeout = False\<rparr>], Left False 3)"
    by metis+
  from a b show ?thesis by blast
qed

section \<open>The sequential strategy: properties\<close>

lemma scanLoop_Left:
  "scanLoop c w pf d t lt lines = (sent, Left r l) \<Longrightarrow>
     (r \<longrightarrow> (\<exists>h\<in>set sent. IsFinal h)) \<and> (l = lt \<or> (\<exists>h\<in>set sent. TTL h = l))"
proof (induction lines arbitrary: t lt sent)
  case Nil
  then show ?case by simp
next
  case (Cons line rest)
  show ?case
  proof (cases "ctxErr c t")
    case True
    with Cons.prems show ?thesis by simp
  next
    case live: False
    show ?thesis
    proof (cases "line = [] \<or> HasPrefix (TrimSpace line) ''traceroute'' \<or> HasPrefix (TrimSpace line) ''Tracing''")
      case True
      with live Cons.prems have "scanLoop c w pf d (Suc t) lt rest = (sent, Left r l)" by simp
      from Cons.IH[OF this] show ?thesis .
    next
      case data: False
      obtain hop ok where p: "(if w then parseWindowsLine pf line d else parseUnixLine pf line d) = (hop, ok)"
        by (cases "if w then parseWindowsLine pf line d else parseUnixLine pf line d") auto
      show ?thesis
      proof (cases ok)
        case False
        with live data p Cons.prems have "scanLoop c w pf d (Suc t) lt rest = (sent, Left r l)"
          by simp
        from Cons.IH[OF this] show ?thesis .
      next
        case True
        let ?lt2 = "if TTL hop > lt then TTL hop else lt"
        show ?thesis
        proof (cases "IsFinal hop")
          case True
          with live data p \<open>ok\<close> Cons.prems have "sent = [hop]" "r" "l = ?lt2"
            by (auto simp: Let_def)
          then show ?thesis using True by auto
        next
          case False
          obtain sent' x where s: "scanLoop c w pf d (Suc t) ?lt2 rest = (sent', x)"
            by (cases "scanLoop c w pf d (Suc t) ?lt2 rest") auto
          with live data p \<open>ok\<close> False Cons.prems have "sent = hop # sent'" "x = Left r l"
            by (auto simp: Let_def)
          with s Cons.IH[of "Suc t" ?lt2 sent'] show ?thesis by auto
        qed
      qed
    qed
  qed
qed

lemma scanLoop_final_Left:
  "scanLoop c w pf d t lt lines = (sent, x) \<Longrightarrow> \<exists>h\<in>set sent. IsFinal h \<Longrightarrow> \<exists>l. x = Left True l"
proof (induction lines arbitrary: t lt sent)
  case Nil
  then show ?case by simp
next
  case (Cons line rest)
  show ?case
  proof (cases "ctxErr c t")
    case True
    with Cons.prems show ?thesis by simp
  next
    case live: False
    show ?thesis
    proof (cases "line = [] \<or> HasPrefix (TrimSpace line) ''traceroute'' \<or> HasPrefix (TrimSpace line) ''Tracing''")
      case True
      with live Cons.prems have "scanLoop c w pf d (Suc t) lt rest = (sent, x)" by simp
      from Cons.IH[OF this Cons.prems(2)] show ?thesis .
    next
      case data: False
      obtain hop ok where p: "(if w then parseWindowsLine pf line d else parseUnixLine pf line d) = (hop, ok)"
        by (cases "if w then parseWindowsLine pf line d else parseUnixLine pf line d") auto
      show ?thesis
      proof (cases ok)
        case False
        with live data p Cons.prems have "scanLoop c w pf d (Suc t) lt rest = (sent, x)"
          by simp
        from Cons.IH[OF this Cons.prems(2)] show ?thesis .
      next
        case True
        let ?lt2 = "if TTL hop > lt then TTL hop else lt"
        show ?thesis
        proof (cases "IsFinal hop")
          case True
          with live data p \<open>ok\<close> Cons.prems show ?thesis
            by (auto simp: Let_def)
        next
          case False
          obtain sent' x' where s: "scanLoop c w pf d (Suc t) ?lt2 rest = (sent', x')"
            by (cases "scanLoop c w pf d (Suc t) ?lt2 rest") auto
          with live data p \<open>ok\<close> False Cons.prems have "sent = hop # sent'" "x' = x"
            by (auto simp: Let_def)
          with s False Cons.prems(2) Cons.IH[of "Suc t" ?lt2 sent'] show ?thesis by auto
        qed
      qed
    qed
  qed
qed

text \<open>
  Claim C10.  In a sequential run whose process has started: when no hop sent is
  final and every hop sent has a TTL below \<open>MaxHops\<close> (so that \<^verbatim>\<open>lastTTL\<close>, the highest
  TTL parsed or 0, is below \<open>MaxHops\<close>), the run returns \<^verbatim>\<open>nil\<close>; and a run that
  sent a final hop returns \<^verbatim>\<open>nil\<close> as well.
\<close>

theorem sequential_early_end_returns_nil:
  assumes cmd: "sequentialCommand e dest opts = Inr (binary, args)"
    and start: "StartScan e binary args = Inr lines"
  shows "(0 < MaxHops opts
          \<and> (\<forall>h\<in>set (fst (runSequential c e dest opts)). \<not> IsFinal h \<and> TTL h < MaxHops opts)
        \<longrightarrow> snd (runSequential c e dest opts) = Returns None)
     \<and> ((\<exists>h\<in>set (fst (runSequential c e dest opts)). IsFinal h)
        \<longrightarrow> snd (runSequential c e dest opts) = Returns None)"
proof -
  obtain sent x where s:
    "scanLoop c (GOOS e = ''windows'') (ParseFloat e) (resolveIP e dest) 0 0 lines = (sent, x)"
    by (cases "scanLoop c (GOOS e = ''windows'') (ParseFloat e) (resolveIP e dest) 0 0 lines") auto
  have sent: "fst (runSequential c e dest opts) = sent"
    using cmd start s by (cases x) (simp_all add: runSequential_def)
  show ?thesis
  proof (cases x)
    case Killed
    with cmd start s show ?thesis by (simp add: runSequential_def)
  next
    case (Left r l)
    from scanLoop_Left[OF s[unfolded Left]]
    have r: "r \<longrightarrow> (\<exists>h\<in>set sent. IsFinal h)" and l: "l = 0 \<or> (\<exists>h\<in>set sent. TTL h = l)"
      by auto
    have out: "snd (runSequential c e dest opts) =
        (if \<not> r \<and> l \<ge> MaxHops opts then Returns (Some ErrMaxHopsReached) else Returns None)"
      using cmd start s Left by (simp add: runSequential_def)
    have a: "0 < MaxHops opts \<and> (\<forall>h\<in>set sent. \<not> IsFinal h \<and> TTL h < MaxHops opts)
        \<longrightarrow> l < MaxHops opts"
      using l by auto
    have b: "(\<exists>h\<in>set sent. IsFinal h) \<longrightarrow> r"
      using scanLoop_final_Left[OF s] Left by auto
    from a b out sent show ?thesis by auto
  qed
qed

lemma seqDemo_sent:
  "fst (runSequential neverCancelled seqDemoEnv ''example.com'' DefaultOptions) =
     [\<lparr>TTL = 1, IP = ''10.0.0.1'', Hostname = [], RTT = 0, Success = True,
       IsFinal = False, IsTimeout = False\<rparr>]"
  by code_simp

lemma seqDemo_reached:
  "fst (runSequential neverCancelled seqDemoEnv ''10.0.0.1'' DefaultOptions) =
     [\<lparr>TTL = 1, IP = ''10.0.0.1'', Hostname = [], RTT = 0, Success = True,
       IsFinal = True, IsTimeout = False\<rparr>]"
  by code_simp

text \<open>
  The process prints one hop, of TTL 1, and ends; \<open>MaxHops\<close> is 30.  With the
  destination \<^verbatim>\<open>example.com\<close> the hop is not final, with the destination \<^verbatim>\<open>10.0.0.1\<close>
  it is: both runs return \<^verbatim>\<open>nil\<close>.
\<close>

theorem sequential_early_end_returns_nil_witness:
  "map TTL (fst (runSequential neverCancelled seqDemoEnv ''example.com'' DefaultOptions)) = [1]
   \<and> map IsFinal (fst (runSequential neverCancelled seqDemoEnv ''example.com'' DefaultOptions))
       = [False]
   \<and> MaxHops DefaultOptions = 30
   \<and> snd (runSequential neverCancelled seqDemoEnv ''example.com'' DefaultOptions) = Returns None
   \<and> map IsFinal (fst (runSequential neverCancelled seqDemoEnv ''10.0.0.1'' DefaultOptions))
       = [True]
   \<and> snd (runSequential neverCancelled seqDemoEnv ''10.0.0.1'' DefaultOptions) = Returns None"
proof -
  have cmd: "sequentialCommand seqDemoEnv dest DefaultOptions =
      Inr (''tracert'', [''-h'', Itoa 30, ''-w'', Itoa 3000, dest])" for dest
    by (simp add: sequentialCommand_def seqDemoEnv_def quietEnv_def DefaultOptions_def)
  have start: "StartScan seqDemoEnv ''tracert'' [''-h'', Itoa 30, ''-w'', Itoa 3000, dest]
      = Inr [''Tracing route to example.com'', ''  1    <1 ms    <1 ms    <1 ms  10.0.0.1'']"
    for dest
    by (simp add: seqDemoEnv_def quietEnv_def)
  from sequential_early_end_returns_nil[OF cmd start, of neverCancelled] seqDemo_sent
  have a: "snd (runSequential neverCancelled seqDemoEnv ''example.com'' DefaultOptions)
      = Returns None"
    by (simp add: DefaultOptions_def)
  from sequential_early_end_returns_nil[OF cmd start, of neverCancelled] seqDemo_reached
  have b: "snd (runSequential neverCancelled seqDemoEnv ''10.0.0.1'' DefaultOptions)
      = Returns None"
    by simp
  from a b seqDemo_sent seqDemo_reached show ?thesis by (simp add: DefaultOptions_def)
qed

section \<open>The per-hop wait\<close>

lemma decimal_snoc: "decimal (xs @ [c]) = 10 * decimal xs + digitVal c"
  by (simp add: decimal_def)

lemma digit_char:
  assumes "n < 10"
  shows "isDigit (char_of (48 + n)) \<and> digitVal (char_of (48 + n)) = int n"
proof -
  from assms consider "n = 0" | "n = 1" | "n = 2" | "n = 3" | "n = 4" | "n = 5"
    | "n = 6" | "n = 7" | "n = 8" | "n = 9" by (presburger | arith | force)
  then show ?thesis
    by cases (simp_all add: isDigit_def digitVal_def char_of_def bit_Suc_0_iff)
qed

lemma natDigits_props:
  "natDigits n \<noteq> [] \<and> list_all isDigit (natDigits n) \<and> decimal (natDigits n) = int n"
proof (induction n rule: natDigits.induct)
  case (1 n)
  show ?case
  proof (cases "n < 10")
    case True
    then show ?thesis
      using digit_char[OF True] by (simp add: natDigits.simps[of n] decimal_def)
  next
    case False
    have m: "n mod 10 < 10" by simp
    have n: "10 * int (n div 10) + int (n mod 10) = int n"
      by (simp add: zdiv_int zmod_int)
    from False 1 digit_char[OF m] n show ?thesis
      by (simp add: natDigits.simps[of n] decimal_snoc)
  qed
qed

lemma Itoa_not_w: "Itoa i \<noteq> ''-w''"
proof (cases "i < 0")
  case True
  obtain d ds where "natDigits (nat (- i)) = d # ds" "isDigit d"
    using natDigits_props[of "nat (- i)"] by (cases "natDigits (nat (- i))") auto
  then show ?thesis using True by (auto simp: Itoa_def isDigit_def)
next
  case False
  obtain d ds where "natDigits (nat i) = d # ds" "isDigit d"
    using natDigits_props[of "nat i"] by (cases "natDigits (nat i)") auto
  then show ?thesis using False by (auto simp: Itoa_def isDigit_def)
qed

lemma timeoutSecs_pos:
  "0 < TimeoutMs opts \<Longrightarrow> timeoutSecs opts = max 1 (TimeoutMs opts div 1000)"
  by (auto simp: timeoutSecs_def goDiv_def Let_def max_def sgn_if)

text \<open>
  Claim C6, amended.  For a positive \<open>TimeoutMs\<close>: every probe of the parallel
  strategy and the \<^verbatim>\<open>traceroute\<close> of the sequential strategy are given
  \<open>max 1 (TimeoutMs div 1000)\<close> seconds, which is at least one second; the \<^verbatim>\<open>tracert\<close>
  of the Windows branch is given \<open>TimeoutMs\<close> milliseconds as they are.
\<close>

theorem per_hop_wait:
  assumes "0 < TimeoutMs opts"
  shows "perHopWaitMs False (probeArgs ttl (timeoutSecs opts) dest)
           = Some (1000 * max 1 (TimeoutMs opts div 1000))
     \<and> (GOOS e \<noteq> ''windows'' \<and> sequentialCommand e dest opts = Inr (b, args)
          \<longrightarrow> perHopWaitMs False args = Some (1000 * max 1 (TimeoutMs opts div 1000)))
     \<and> (GOOS e = ''windows'' \<and> sequentialCommand e dest opts = Inr (b, args)
          \<longrightarrow> perHopWaitMs True args = Some (TimeoutMs opts))"
proof -
  let ?s = "max 1 (TimeoutMs opts div 1000)"
  have s: "timeoutSecs opts = ?s" using assms by (rule timeoutSecs_pos)
  have s0: "0 \<le> ?s" by simp
  have Is: "Itoa ?s = natDigits (nat ?s)" "Itoa (TimeoutMs opts) = natDigits (nat (TimeoutMs opts))"
    using assms by (simp_all add: Itoa_def)
  have ds: "decimal (natDigits (nat ?s)) = ?s"
    using natDigits_props[of "nat ?s"] by simp
  have dt: "decimal (natDigits (nat (TimeoutMs opts))) = TimeoutMs opts"
    using natDigits_props[of "nat (TimeoutMs opts)"] assms by simp
  have p: "perHopWaitMs False (probeArgs ttl (timeoutSecs opts) dest) = Some (1000 * ?s)"
    using Itoa_not_w[of ttl] natDigits_props[of "nat ?s"] ds
    by (simp add: perHopWaitMs_def probeArgs_def s Is)
  have u: "GOOS e \<noteq> ''windows'' \<and> sequentialCommand e dest opts = Inr (b, args)
          \<longrightarrow> perHopWaitMs False args = Some (1000 * ?s)"
    using Itoa_not_w[of "MaxHops opts"] natDigits_props[of "nat ?s"] ds
    by (auto simp: sequentialCommand_def perHopWaitMs_def s Is split: sum.splits)
  have w: "GOOS e = ''windows'' \<and> sequentialCommand e dest opts = Inr (b, args)
          \<longrightarrow> perHopWaitMs True args = Some (TimeoutMs opts)"
    using Itoa_not_w[of "MaxHops opts"] natDigits_props[of "nat (TimeoutMs opts)"] dt
    by (auto simp: sequentialCommand_def perHopWaitMs_def Is)
  from p u w show ?thesis by blast
qed

text \<open>On Windows a \<open>TimeoutMs\<close> of 500 reaches \<^verbatim>\<open>tracert\<close> as \<^verbatim>\<open>-w 500\<close>: half a second.\<close>

theorem windows_wait_below_one_second:
  "sequentialCommand (quietEnv ''windows'') ''example.com'' \<lparr>MaxHops = 30, TimeoutMs = 500\<rparr>
     = Inr (''tracert'', [''-h'', ''30'', ''-w'', ''500'', ''example.com''])
   \<and> perHopWaitMs True [''-h'', ''30'', ''-w'', ''500'', ''example.com''] = Some 500"
  by code_simp

theorem per_hop_wait_witness:
  "perHopWaitMs False (probeArgs 3 (timeoutSecs \<lparr>MaxHops = 30, TimeoutMs = 500\<rparr>) ''example.com'') = Some 1000
   \<and> sequentialCommand (quietEnv ''darwin'') ''example.com'' \<lparr>MaxHops = 30, TimeoutMs = 500\<rparr>
       = Inr (''/usr/sbin/traceroute'', [''-m'', ''30'', ''-w'', ''1'', ''-q'', ''1'', ''example.com''])
   \<and> perHopWaitMs False [''-m'', ''30'', ''-w'', ''1'', ''-q'', ''1'', ''example.com''] = Some 1000
   \<and> sequentialCommand (quietEnv ''windows'') ''example.com'' \<lparr>MaxHops = 30, TimeoutMs = 500\<rparr>
       = Inr (''tracert'', [''-h'', ''30'', ''-w'', ''500'', ''example.com''])
   \<and> perHopWaitMs True [''-h'', ''30'', ''-w'', ''500'', ''example.com''] = Some 500"
proof -
  have pos: "0 < TimeoutMs \<lparr>MaxHops = 30, TimeoutMs = 500\<rparr>" by simp
  have d: "sequentialCommand (quietEnv ''darwin'') ''example.com'' \<lparr>MaxHops = 30, TimeoutMs = 500\<rparr>
       = Inr (''/usr/sbin/traceroute'', [''-m'', ''30'', ''-w'', ''1'', ''-q'', ''1'', ''example.com''])"
    by code_simp
  have w: "sequentialCommand (quietEnv ''windows'') ''example.com'' \<lparr>MaxHops = 30, TimeoutMs = 500\<rparr>
       = Inr (''tracert'', [''-h'', ''30'', ''-w'', ''500'', ''example.com''])"
    by code_simp
  have gd: "GOOS (quietEnv ''darwin'') \<noteq> ''windows''" "GOOS (quietEnv ''windows'') = ''windows''"
    by (simp_all add: quietEnv_def)
  from per_hop_wait[OF pos, of 3 "''example.com''" "quietEnv ''darwin''"] d gd(1)
    per_hop_wait[OF pos, of 3 "''example.com''" "quietEnv ''windows''"] w gd(2)
  show ?thesis by simp
qed

section \<open>The destination resolver\<close>

lemma parseUnixLine_flags:
  "IsFinal (fst (parseUnixLine pf line d))
     = (Success (fst (parseUnixLine pf line d)) \<and> d \<noteq> [] \<and> IP (fst (parseUnixLine pf line d)) = d)"
  by (auto simp: parseUnixLine_def parseUnixHop_def timeoutHop_def zeroHop_def
      split: option.splits)

lemma firstHop_flags:
  "IsFinal (firstHop pf d ls) = (Success (firstHop pf d ls) \<and> d \<noteq> [] \<and> IP (firstHop pf d ls) = d)"
proof (induction ls)
  case Nil
  then show ?case by (simp add: zeroHop_def)
next
  case (Cons l ls)
  obtain h ok where p: "parseUnixLine pf (TrimSpace l) d = (h, ok)"
    by (cases "parseUnixLine pf (TrimSpace l) d") auto
  with parseUnixLine_flags[of pf "TrimSpace l" d]
  have "IsFinal h = (Success h \<and> d \<noteq> [] \<and> IP h = d)" by simp
  with Cons p show ?case by (cases ok) (auto simp: Let_def)
qed

lemma reverseDNS_fields:
  "TTL (reverseDNS e h) = TTL h" "IP (reverseDNS e h) = IP h" "Success (reverseDNS e h) = Success h"
  "IsFinal (reverseDNS e h) = IsFinal h" "IsTimeout (reverseDNS e h) = IsTimeout h"
  by (auto simp: reverseDNS_def split: option.splits list.splits)

lemma probe_flags:
  "IsFinal (probe e b secs dest d ttl)
     = (Success (probe e b secs dest d ttl) \<and> d \<noteq> [] \<and> IP (probe e b secs dest d ttl) = d)"
  using firstHop_flags[of "ParseFloat e" d "splitLines (Output e b (probeArgs ttl secs dest))"]
  by (simp add: probe_def Let_def timeoutHop_def reverseDNS_fields)

text \<open>
  Claim C8, amended.  \<^verbatim>\<open>resolveIPs\<close> has no error result.  For a literal address,
  IPv4 or IPv6, it returns the set of just that address (in the text \<^verbatim>\<open>String()\<close>
  gives it) and \<^verbatim>\<open>resolveIP\<close> returns the same; for a name that resolves it returns all IPv4 addresses of the lookup, and
  \<^verbatim>\<open>resolveIP\<close> one of them; for a name that does not resolve it returns the empty set
  and \<^verbatim>\<open>resolveIP\<close> the name itself, and then a probe's hop looks final exactly when
  it has succeeded and its address is literally that one string.
\<close>

theorem resolver_contract:
  "(ParseIP e host = Some (str, v4) \<longrightarrow>
       resolveIPs e host = [str] \<and> resolveIP e host = str)
   \<and> (ParseIP e host = None \<and> LookupHost e host = Some addrs \<longrightarrow>
       set (resolveIPs e host) = {a \<in> set addrs. \<exists>str. ParseIP e a = Some (str, True)}
       \<and> (resolveIPs e host \<noteq> [] \<longrightarrow> resolveIP e host \<in> set (resolveIPs e host)))
   \<and> (ParseIP e host = None \<and> LookupHost e host = None \<longrightarrow>
       resolveIPs e host = [] \<and> resolveIP e host = host
       \<and> looksFinal (resolveIPs e host) (probe e b secs host (resolveIP e host) ttl)
           = (Success (probe e b secs host (resolveIP e host) ttl) \<and> host \<noteq> []
              \<and> IP (probe e b secs host (resolveIP e host) ttl) = host))"
proof -
  have lit: "ParseIP e host = Some (str, v4) \<longrightarrow>
       resolveIPs e host = [str] \<and> resolveIP e host = str"
    by (simp add: resolveIPs_def resolveIP_def)
  have name: "ParseIP e host = None \<and> LookupHost e host = Some addrs \<longrightarrow>
       set (resolveIPs e host) = {a \<in> set addrs. \<exists>str. ParseIP e a = Some (str, True)}
       \<and> (resolveIPs e host \<noteq> [] \<longrightarrow> resolveIP e host \<in> set (resolveIPs e host))"
  proof -
    have m: "resolveIPs e host \<noteq> [] \<longrightarrow> resolveIP e host \<in> set (resolveIPs e host)"
      by (simp add: resolveIP_def Let_def)
    have s: "ParseIP e host = None \<and> LookupHost e host = Some addrs \<longrightarrow>
       set (resolveIPs e host) = {a \<in> set addrs. \<exists>str. ParseIP e a = Some (str, True)}"
      by (auto simp: resolveIPs_def split: option.splits)
    from m s show ?thesis by blast
  qed
  have fail: "ParseIP e host = None \<and> LookupHost e host = None \<longrightarrow>
       resolveIPs e host = [] \<and> resolveIP e host = host
       \<and> looksFinal (resolveIPs e host) (probe e b secs host (resolveIP e host) ttl)
           = (Success (probe e b secs host (resolveIP e host) ttl) \<and> host \<noteq> []
              \<and> IP (probe e b secs host (resolveIP e host) ttl) = host)"
    using probe_flags[of e b secs host host ttl]
    by (auto simp: resolveIPs_def resolveIP_def looksFinal_def)
  from lit name fail show ?thesis by blast
qed

theorem resolver_contract_witness:
  "resolveIPs resolverEnv ''93.184.216.34'' = [''93.184.216.34'']
   \<and> resolveIP resolverEnv ''93.184.216.34'' = ''93.184.216.34''
   \<and> set (resolveIPs resolverEnv ''example.com'') = {''93.184.216.34''}
   \<and> resolveIP resolverEnv ''example.com'' = ''93.184.216.34''
   \<and> resolveIPs resolverEnv ''no.such.host'' = []
   \<and> resolveIP resolverEnv ''no.such.host'' = ''no.such.host''"
proof -
  have a: "ParseIP resolverEnv ''93.184.216.34'' = Some (''93.184.216.34'', True)"
    by (simp add: resolverEnv_def quietEnv_def)
  have b: "ParseIP resolverEnv ''example.com'' = None \<and> LookupHost resolverEnv ''example.com''
      = Some [''93.184.216.34'', ''2606:2800:21f:cb07:6820:80da:af6b:8b2c'']"
    by (simp add: resolverEnv_def quietEnv_def)
  have c: "ParseIP resolverEnv ''no.such.host'' = None \<and> LookupHost resolverEnv ''no.such.host'' = None"
    by (simp add: resolverEnv_def quietEnv_def)
  have s: "{a \<in> set [''93.184.216.34'', ''2606:2800:21f:cb07:6820:80da:af6b:8b2c''].
             \<exists>str. ParseIP resolverEnv a = Some (str, True)} = {''93.184.216.34''}"
    by (auto simp: resolverEnv_def quietEnv_def)
  have one: "resolveIP resolverEnv ''example.com'' = ''93.184.216.34''"
    by code_simp
  from resolver_contract[of resolverEnv "''93.184.216.34''" "''93.184.216.34''" True] a
    resolver_contract[of resolverEnv "''example.com''" _ _
       "[''93.184.216.34'', ''2606:2800:21f:cb07:6820:80da:af6b:8b2c'']"] b s
    resolver_contract[of resolverEnv "''no.such.host''"] c one
  show ?thesis by simp
qed

text \<open>The set is not always one of IPv4 addresses: the branch for a literal has no
  \<^verbatim>\<open>To4\<close> test, and an IPv6 literal is returned as the set's only element.\<close>

theorem ipv6_literal_in_set:
  "ParseIP resolverEnv ''2606:2800:21f:cb07:6820:80da:af6b:8b2c''
     = Some (''2606:2800:21f:cb07:6820:80da:af6b:8b2c'', False)
   \<and> resolveIPs resolverEnv ''2606:2800:21f:cb07:6820:80da:af6b:8b2c''
     = [''2606:2800:21f:cb07:6820:80da:af6b:8b2c'']"
  by code_simp

section \<open>Cancellation\<close>

text \<open>\<^verbatim>\<open>runParallel\<close> checks the context once more after its sending loop, before it
  decides between \<^verbatim>\<open>ErrMaxHopsReached\<close> and \<^verbatim>\<open>nil\<close>: a run whose context is cancelled by
  then returns \<^verbatim>\<open>nil\<close>.\<close>

lemma parallel_cancel_returns_nil:
  assumes "tracerouteBinary e = Inr binary" and "0 \<le> MaxHops opts"
    and "ctxErr c (2 * nat (MaxHops opts))"
  shows "snd (runParallel c e dest opts) = Returns None"
  using assms by (auto simp: runParallel_def Let_def split: prod.splits)

text \<open>
  Claim C4.  \<^verbatim>\<open>runSequential\<close> has no such check after its loop.  A Windows run with
  \<open>MaxHops = 1\<close> reads the line of hop 1, a timeout; the caller cancels while the
  scanner waits for the next line, the process is killed and its output ends.  The
  loop is left without another look at the context, \<open>lastTTL = 1 \<ge> MaxHops\<close>, and the
  cancelled run returns \<^verbatim>\<open>ErrMaxHopsReached\<close>, not \<^verbatim>\<open>nil\<close>.
\<close>

theorem sequential_cancel_reports_max_hops:
  "Run cancelledAfterFirstLine lastHopEnv ''example.com'' (Some \<lparr>MaxHops = 1, TimeoutMs = 3000\<rparr>)
     = ([timeoutHop 1], Returns (Some ErrMaxHopsReached))"
  by code_simp

section \<open>The parallel strategy: reconciliation\<close>

lemma ctxErr_never: "cancelAt c = None \<Longrightarrow> ctxErr c t = False"
  by (simp add: ctxErr_def)

lemma selectDone_never: "cancelAt c = None \<Longrightarrow> selectDone c t = False"
  by (simp add: selectDone_def ctxErr_never)

lemma launchLoop_live:
  "cancelAt c = None \<Longrightarrow> launchLoop c p ttl m = map (\<lambda>t. Some (p t)) [ttl..m]"
proof (induction c p ttl m rule: launchLoop.induct)
  case (1 c p ttl m)
  show ?case
  proof (cases "ttl \<le> m")
    case True
    with 1 have "launchLoop c p (ttl + 1) m = map (\<lambda>t. Some (p t)) [ttl + 1..m]"
      by (simp add: ctxErr_never)
    with True 1(2) show ?thesis
      by (simp add: launchLoop.simps[of c p ttl m] upto_rec1[of ttl m] ctxErr_never)
  next
    case False
    then show ?thesis by (simp add: launchLoop.simps[of c p ttl m])
  qed
qed

lemma trueFinalTTL_none:
  "\<forall>h\<in>set hs. \<not> looksFinal D h \<Longrightarrow> trueFinalTTL D (map Some hs) = 0"
  by (induction hs) auto

lemma trueFinalTTL_first:
  "\<forall>h\<in>set pre. \<not> looksFinal D h \<Longrightarrow> looksFinal D x \<Longrightarrow>
     trueFinalTTL D (map Some (pre @ x # post)) = TTL x"
  by (induction pre) auto

lemma emitLoop_no_final:
  "cancelAt c = None \<Longrightarrow> \<forall>h\<in>set hs. \<not> (tf > 0 \<and> TTL h = tf) \<Longrightarrow>
     emitLoop c t tf (map Some hs) = (map (\<lambda>h. h\<lparr>IsFinal := False\<rparr>) hs, False)"
  by (induction hs arbitrary: t) (auto simp: Let_def selectDone_never)

lemma emitLoop_final:
  "cancelAt c = None \<Longrightarrow> \<forall>h\<in>set pre. TTL h \<noteq> tf \<Longrightarrow> tf > 0 \<Longrightarrow> TTL x = tf \<Longrightarrow>
     emitLoop c t tf (map Some (pre @ x # post))
       = (map (\<lambda>h. h\<lparr>IsFinal := False\<rparr>) pre @ [x\<lparr>IsFinal := True\<rparr>], False)"
  by (induction pre arbitrary: t) (auto simp: Let_def selectDone_never)

lemma ctxErr_mono: "ctxErr c s \<Longrightarrow> s \<le> t \<Longrightarrow> ctxErr c t"
  by (auto simp: ctxErr_def split: option.splits)

lemma got_replicate_None: "got (replicate n None) = []"
  by (induction n) simp_all

lemma launchLoop_got:
  "\<exists>j\<le>m. got (launchLoop c p ttl m) = map p [ttl..j]"
proof (induction c p ttl m rule: launchLoop.induct)
  case (1 c p ttl m)
  show ?case
  proof (cases "ttl \<le> m")
    case False
    then have "got (launchLoop c p ttl m) = map p [ttl..m]"
      by (simp add: launchLoop.simps[of c p ttl m])
    then show ?thesis by blast
  next
    case le: True
    show ?thesis
    proof (cases "ctxErr c (nat (ttl - 1))")
      case True
      from le True have "got (launchLoop c p ttl m) = map p [ttl..ttl - 1]"
        by (simp add: launchLoop.simps[of c p ttl m] got_replicate_None)
      with le show ?thesis by (intro exI[of _ "ttl - 1"]) simp
    next
      case False
      from 1[OF le False] obtain j where j: "j \<le> m"
        "got (launchLoop c p (ttl + 1) m) = map p [ttl + 1..j]" by blast
      show ?thesis
      proof (cases "ttl \<le> j")
        case True
        with le False j have "got (launchLoop c p ttl m) = map p [ttl..j]"
          by (simp add: launchLoop.simps[of c p ttl m] upto_rec1[of ttl j])
        with j(1) show ?thesis by blast
      next
        case nj: False
        with j(2) have "got (launchLoop c p (ttl + 1) m) = []" by simp
        with le False have "got (launchLoop c p ttl m) = map p [ttl..ttl]"
          by (simp add: launchLoop.simps[of c p ttl m])
        with le show ?thesis by blast
      qed
    qed
  qed
qed

lemma launchLoop_unobserved:
  "\<not> ctxErr c (nat (m - 1)) \<Longrightarrow> 1 \<le> ttl \<Longrightarrow>
     launchLoop c p ttl m = map (\<lambda>t. Some (p t)) [ttl..m]"
proof (induction c p ttl m rule: launchLoop.induct)
  case (1 c p ttl m)
  show ?case
  proof (cases "ttl \<le> m")
    case True
    with 1(2) have live: "\<not> ctxErr c (nat (ttl - 1))"
      by (auto dest: ctxErr_mono[of c "nat (ttl - 1)" "nat (m - 1)"])
    with 1 True have "launchLoop c p (ttl + 1) m = map (\<lambda>t. Some (p t)) [ttl + 1..m]" by simp
    with True live show ?thesis
      by (simp add: launchLoop.simps[of c p ttl m] upto_rec1[of ttl m])
  next
    case False
    then show ?thesis by (simp add: launchLoop.simps[of c p ttl m])
  qed
qed

lemma trueFinalTTL_got:
  "trueFinalTTL D rs = (case find (looksFinal D) (got rs) of None \<Rightarrow> 0 | Some h \<Rightarrow> TTL h)"
proof (induction rs)
  case Nil
  then show ?case by simp
next
  case (Cons r rs)
  then show ?case by (cases r) simp_all
qed

lemma emitLoop_prefix:
  "prefix (fst (emitLoop c t tf rs))
     (uptoFinal (map (\<lambda>h. h\<lparr>IsFinal := (tf > 0 \<and> TTL h = tf)\<rparr>) (got rs)))"
proof (induction rs arbitrary: t)
  case Nil
  then show ?case by simp
next
  case (Cons r rs)
  show ?case
  proof (cases r)
    case None
    with Cons show ?thesis by simp
  next
    case (Some h)
    obtain sent dn where e: "emitLoop c (Suc t) tf rs = (sent, dn)"
      by (cases "emitLoop c (Suc t) tf rs") auto
    with Cons[of "Suc t"] have "prefix sent
        (uptoFinal (map (\<lambda>h. h\<lparr>IsFinal := (tf > 0 \<and> TTL h = tf)\<rparr>) (got rs)))" by simp
    with Some e show ?thesis by (auto simp: Let_def)
  qed
qed

lemma emitLoop_live:
  "cancelAt c = None \<Longrightarrow>
     emitLoop c t tf rs
       = (uptoFinal (map (\<lambda>h. h\<lparr>IsFinal := (tf > 0 \<and> TTL h = tf)\<rparr>) (got rs)), False)"
proof (induction rs arbitrary: t)
  case Nil
  then show ?case by simp
next
  case (Cons r rs)
  show ?case
  proof (cases r)
    case None
    with Cons show ?thesis by simp
  next
    case (Some h)
    with Cons.IH[OF Cons.prems, of "Suc t"] Cons.prems show ?thesis
      by (auto simp: Let_def selectDone_never)
  qed
qed

lemma uptoFinal_none: "\<forall>h\<in>set hs. \<not> IsFinal h \<Longrightarrow> uptoFinal hs = hs"
  by (induction hs) auto

lemma uptoFinal_first:
  "\<forall>h\<in>set pre. \<not> IsFinal h \<Longrightarrow> IsFinal x \<Longrightarrow> uptoFinal (pre @ x # post) = pre @ [x]"
  by (induction pre) auto

lemma find_none: "\<forall>h\<in>set hs. \<not> P h \<Longrightarrow> find P hs = None"
  by (induction hs) auto

lemma find_first: "\<forall>h\<in>set pre. \<not> P h \<Longrightarrow> P x \<Longrightarrow> find P (pre @ x # post) = Some x"
  by (induction pre) auto

lemma got_map_Some: "got (map (\<lambda>t. Some (f t)) ts) = map f ts"
  by (induction ts) simp_all


lemma reconcile_core:
  fixes P :: "int \<Rightarrow> 'f Hop"
  assumes k: "1 \<le> k"
    and own: "\<forall>t\<in>{1..k}. TTL (P t) = t"
    and fin: "looksFinal D (P k)"
    and low: "\<forall>t\<in>{1..<k}. \<not> looksFinal D (P t)"
    and tf: "tf = (case find (looksFinal D) (map P [1..j]) of None \<Rightarrow> 0 | Some h \<Rightarrow> TTL h)"
  shows "prefix (uptoFinal (map (\<lambda>h. h\<lparr>IsFinal := (tf > 0 \<and> TTL h = tf)\<rparr>) (map P [1..j])))
           (map (\<lambda>t. (P t)\<lparr>IsFinal := (t = k)\<rparr>) [1..k])
       \<and> (k \<le> j \<longrightarrow> tf = k
            \<and> uptoFinal (map (\<lambda>h. h\<lparr>IsFinal := (tf > 0 \<and> TTL h = tf)\<rparr>) (map P [1..j]))
                = map (\<lambda>t. (P t)\<lparr>IsFinal := (t = k)\<rparr>) [1..k])"
proof (cases "k \<le> j")
  case True
  let ?pre = "map P [1..k - 1]" and ?post = "map P [k + 1..j]"
  have split: "[1..j] = [1..k - 1] @ k # [k + 1..j]"
    using k True by (rule upto_split3)
  have hs: "map P [1..j] = ?pre @ P k # ?post" by (simp add: split)
  have pre_nf: "\<forall>h\<in>set ?pre. \<not> looksFinal D h" using low by auto
  have tfk: "tf = k"
    using find_first[OF pre_nf fin, of ?post] own k by (simp add: tf hs)
  let ?mark = "\<lambda>h::'f Hop. h\<lparr>IsFinal := (tf > 0 \<and> TTL h = tf)\<rparr>"
  have a: "\<forall>h\<in>set (map ?mark ?pre). \<not> IsFinal h" using own tfk by auto
  have b: "IsFinal (?mark (P k))" using own k tfk by simp
  have "uptoFinal (map ?mark (map P [1..j])) = map ?mark ?pre @ [?mark (P k)]"
    using uptoFinal_first[OF a b, of "map ?mark ?post"] by (simp add: hs)
  also have "map ?mark ?pre = map (\<lambda>t. (P t)\<lparr>IsFinal := False\<rparr>) [1..k - 1]"
    unfolding map_map using own tfk by (intro map_cong) auto
  also have "?mark (P k) = (P k)\<lparr>IsFinal := True\<rparr>" using own k tfk by simp
  also have "map (\<lambda>t. (P t)\<lparr>IsFinal := False\<rparr>) [1..k - 1] @ [(P k)\<lparr>IsFinal := True\<rparr>]
      = map (\<lambda>t. (P t)\<lparr>IsFinal := (t = k)\<rparr>) [1..k]"
  proof -
    have up: "[1..k] = [1..k - 1] @ [k]" using k by (simp add: upto_rec2)
    have "map (\<lambda>t. (P t)\<lparr>IsFinal := (t = k)\<rparr>) [1..k - 1]
        = map (\<lambda>t. (P t)\<lparr>IsFinal := False\<rparr>) [1..k - 1]"
      by (rule map_cong) auto
    then show ?thesis unfolding up by simp
  qed
  finally have eq: "uptoFinal (map ?mark (map P [1..j]))
      = map (\<lambda>t. (P t)\<lparr>IsFinal := (t = k)\<rparr>) [1..k]" .
  with tfk True show ?thesis by simp
next
  case False
  have nf: "\<forall>h\<in>set (map P [1..j]). \<not> looksFinal D h" using low False by auto
  have tf0: "tf = 0" using find_none[OF nf] by (simp add: tf)
  have m: "map (\<lambda>h. h\<lparr>IsFinal := (tf > 0 \<and> TTL h = tf)\<rparr>) (map P [1..j])
      = map (\<lambda>t. (P t)\<lparr>IsFinal := (t = k)\<rparr>) [1..j]"
    unfolding map_map using False tf0 by (intro map_cong) auto
  have u: "uptoFinal (map (\<lambda>t. (P t)\<lparr>IsFinal := (t = k)\<rparr>) [1..j])
      = map (\<lambda>t. (P t)\<lparr>IsFinal := (t = k)\<rparr>) [1..j]"
    by (rule uptoFinal_none) (use False in auto)
  have p: "prefix (map (\<lambda>t. (P t)\<lparr>IsFinal := (t = k)\<rparr>) [1..j])
          (map (\<lambda>t. (P t)\<lparr>IsFinal := (t = k)\<rparr>) [1..k])"
  proof (cases "1 \<le> j + 1")
    case True
    from upto_split1[OF True, of k] False
    have "[1..k] = [1..j] @ [j + 1..k]" by simp
    then show ?thesis by simp
  next
    case False
    then show ?thesis by simp
  qed
  have "prefix (uptoFinal (map (\<lambda>h. h\<lparr>IsFinal := (tf > 0 \<and> TTL h = tf)\<rparr>) (map P [1..j])))
           (map (\<lambda>t. (P t)\<lparr>IsFinal := (t = k)\<rparr>) [1..k])"
    by (simp only: m u p)
  with False show ?thesis by blast
qed

text \<open>
  Claim C1, amended.  Let \<open>k\<close> be the lowest TTL whose hop looks final (it has
  succeeded, and it was marked final by its probe or its address is in the
  destination's address set), and let the hops of the TTLs up to \<open>k\<close> carry the TTL
  they were probed with.  Then in every parallel run, cancelled or not, the hops
  sent are an initial part of the hops of the TTLs \<open>1..k\<close> in ascending order, the
  hop of \<open>k\<close> marked final and no other: no hop with a TTL above \<open>k\<close> is sent, and the
  run returns \<^verbatim>\<open>nil\<close>.  In a run that is not cancelled exactly the hops of the TTLs
  \<open>1..k\<close> are sent.
\<close>

theorem parallel_reconciliation:
  assumes bin: "tracerouteBinary e = Inr binary"
    and k: "1 \<le> k" "k \<le> MaxHops opts"
    and own: "\<forall>t\<in>{1..k}. TTL (probe e binary (timeoutSecs opts) dest (resolveIP e dest) t) = t"
    and fin: "looksFinal (resolveIPs e dest) (probe e binary (timeoutSecs opts) dest (resolveIP e dest) k)"
    and low: "\<forall>t\<in>{1..<k}. \<not> looksFinal (resolveIPs e dest)
                 (probe e binary (timeoutSecs opts) dest (resolveIP e dest) t)"
  shows "prefix (fst (runParallel c e dest opts))
           (map (\<lambda>t. (probe e binary (timeoutSecs opts) dest (resolveIP e dest) t)\<lparr>IsFinal := (t = k)\<rparr>)
                [1..k])
     \<and> prefix (map TTL (fst (runParallel c e dest opts))) [1..k]
     \<and> (\<forall>h\<in>set (fst (runParallel c e dest opts)). TTL h \<le> k \<and> (IsFinal h \<longrightarrow> TTL h = k))
     \<and> snd (runParallel c e dest opts) = Returns None
     \<and> (cancelAt c = None \<longrightarrow>
          fst (runParallel c e dest opts) =
            map (\<lambda>t. (probe e binary (timeoutSecs opts) dest (resolveIP e dest) t)\<lparr>IsFinal := (t = k)\<rparr>)
                [1..k])"
proof -
  let ?P = "probe e binary (timeoutSecs opts) dest (resolveIP e dest)"
  let ?D = "resolveIPs e dest"
  let ?full = "map (\<lambda>t. (?P t)\<lparr>IsFinal := (t = k)\<rparr>) [1..k]"
  let ?rs = "collect c e binary dest opts"
  let ?tf = "trueFinalTTL ?D ?rs"
  let ?n = "nat (MaxHops opts)"
  let ?em = "emitLoop c ?n ?tf ?rs"
  have m0: "\<not> MaxHops opts < 0" using k by simp
  have sent: "fst (runParallel c e dest opts) = fst ?em"
    using bin m0 by (simp add: runParallel_def Let_def split: prod.splits)
  have out: "snd (runParallel c e dest opts) =
      (if snd ?em \<or> ctxErr c (2 * ?n) \<or> ?tf \<noteq> 0 then Returns None
       else Returns (Some ErrMaxHopsReached))"
    using bin m0 by (simp add: runParallel_def Let_def split: prod.splits)
  obtain j where j: "j \<le> MaxHops opts" "got ?rs = map ?P [1..j]"
    using launchLoop_got[of "MaxHops opts" c ?P 1] by (auto simp: collect_def)
  have tf: "?tf = (case find (looksFinal ?D) (map ?P [1..j]) of None \<Rightarrow> 0 | Some h \<Rightarrow> TTL h)"
    by (simp add: trueFinalTTL_got j(2))
  note core = reconcile_core[OF k(1) own fin low tf]
  have "prefix (fst ?em)
      (uptoFinal (map (\<lambda>h. h\<lparr>IsFinal := (?tf > 0 \<and> TTL h = ?tf)\<rparr>) (got ?rs)))"
    by (rule emitLoop_prefix)
  from this[unfolded j(2)] core[THEN conjunct1] have pre: "prefix (fst ?em) ?full"
    by (rule prefix_order.trans)
  have ttl_full: "map TTL ?full = [1..k]"
    unfolding map_map using own by (intro map_idI) simp
  from pre have "prefix (map TTL (fst ?em)) (map TTL ?full)" by (rule map_mono_prefix)
  then have pre_ttl: "prefix (map TTL (fst ?em)) [1..k]" by (simp only: ttl_full)
  have bound: "\<forall>h\<in>set (fst ?em). TTL h \<le> k \<and> (IsFinal h \<longrightarrow> TTL h = k)"
  proof
    fix h assume "h \<in> set (fst ?em)"
    with set_mono_prefix[OF pre] have "h \<in> set ?full" by (rule subsetD)
    then obtain t where "t \<in> {1..k}" "h = (?P t)\<lparr>IsFinal := (t = k)\<rparr>" by auto
    with own show "TTL h \<le> k \<and> (IsFinal h \<longrightarrow> TTL h = k)" by auto
  qed
  have all: "got ?rs = map ?P [1..MaxHops opts]" if "\<not> ctxErr c (nat (MaxHops opts - 1))"
    using launchLoop_unobserved[OF that, of 1 ?P]
    by (simp add: collect_def got_map_Some)
  have tfk: "?tf = k" if u: "\<not> ctxErr c (nat (MaxHops opts - 1))"
  proof -
    have "?tf = (case find (looksFinal ?D) (map ?P [1..MaxHops opts]) of None \<Rightarrow> 0 | Some h \<Rightarrow> TTL h)"
      by (simp add: trueFinalTTL_got all[OF u])
    from reconcile_core[OF k(1) own fin low this] k(2) show ?thesis by simp
  qed
  have nil: "snd (runParallel c e dest opts) = Returns None"
  proof (cases "ctxErr c (2 * ?n)")
    case True
    then show ?thesis by (simp add: out)
  next
    case False
    have le: "nat (MaxHops opts - 1) \<le> 2 * ?n" by linarith
    have "\<not> ctxErr c (nat (MaxHops opts - 1))"
      using False ctxErr_mono[OF _ le, of c] by blast
    from tfk[OF this] k show ?thesis by (simp add: out)
  qed
  have exact: "fst (runParallel c e dest opts) = ?full" if live: "cancelAt c = None"
  proof -
    have u: "\<not> ctxErr c (nat (MaxHops opts - 1))" using live by (simp add: ctxErr_never)
    have tf': "?tf = (case find (looksFinal ?D) (map ?P [1..MaxHops opts]) of None \<Rightarrow> 0 | Some h \<Rightarrow> TTL h)"
      by (simp add: trueFinalTTL_got all[OF u])
    from reconcile_core[OF k(1) own fin low tf'] k(2)
    have "uptoFinal (map (\<lambda>h. h\<lparr>IsFinal := (?tf > 0 \<and> TTL h = ?tf)\<rparr>) (map ?P [1..MaxHops opts]))
        = ?full" by blast
    then show ?thesis
      by (simp only: sent emitLoop_live[OF live] all[OF u] fst_conv)
  qed
  from pre pre_ttl bound nil exact sent show ?thesis by simp
qed

lemma scenario_probes:
  "map (probe scenarioEnv ''/usr/bin/traceroute'' (timeoutSecs scenarioOptions) ''93.184.216.34''
         (resolveIP scenarioEnv ''93.184.216.34'')) [1, 2, 3, 4, 5, 6] =
    [\<lparr>TTL = 1, IP = ''10.0.0.1'', Hostname = [], RTT = 0, Success = True, IsFinal = False, IsTimeout = False\<rparr>,
     \<lparr>TTL = 2, IP = ''10.0.0.2'', Hostname = [], RTT = 0, Success = True, IsFinal = False, IsTimeout = False\<rparr>,
     \<lparr>TTL = 3, IP = ''10.0.0.3'', Hostname = [], RTT = 0, Success = True, IsFinal = False, IsTimeout = False\<rparr>,
     \<lparr>TTL = 4, IP = ''10.0.0.4'', Hostname = [], RTT = 0, Success = True, IsFinal = False, IsTimeout = False\<rparr>,
     \<lparr>TTL = 5, IP = ''10.0.0.5'', Hostname = [], RTT = 0, Success = True, IsFinal = False, IsTimeout = False\<rparr>,
     \<lparr>TTL = 6, IP = ''93.184.216.34'', Hostname = [], RTT = 0, Success = True, IsFinal = True, IsTimeout = False\<rparr>]"
  by code_simp

lemma scenario_dest: "resolveIPs scenarioEnv ''93.184.216.34'' = [''93.184.216.34'']"
  by code_simp

lemma one_to_six: "(t::int) \<in> {1..6} \<Longrightarrow> t \<in> set [1, 2, 3, 4, 5, 6]"
  by (simp; presburger)

lemma one_to_five: "(t::int) \<in> {1..<6} \<Longrightarrow> t \<in> set [1, 2, 3, 4, 5]"
  by (simp; presburger)

text \<open>The scenario of the specification, with \<open>MaxHops = 10\<close>: the hops of the TTLs 1 to 6
  are sent, the sixth marked final, and the run returns \<^verbatim>\<open>nil\<close>; cancelled while
  sending, it sends an initial part of them and returns \<^verbatim>\<open>nil\<close>.\<close>

theorem parallel_reconciliation_witness:
  "map TTL (fst (runParallel neverCancelled scenarioEnv ''93.184.216.34'' scenarioOptions))
     = [1, 2, 3, 4, 5, 6]
   \<and> map IsFinal (fst (runParallel neverCancelled scenarioEnv ''93.184.216.34'' scenarioOptions))
     = [False, False, False, False, False, True]
   \<and> snd (runParallel neverCancelled scenarioEnv ''93.184.216.34'' scenarioOptions) = Returns None
   \<and> prefix (map TTL (fst (runParallel cancelledWhileSending scenarioEnv ''93.184.216.34''
                               scenarioOptions))) [1, 2, 3, 4, 5, 6]
   \<and> snd (runParallel cancelledWhileSending scenarioEnv ''93.184.216.34'' scenarioOptions)
     = Returns None"
proof -
  let ?P = "probe scenarioEnv ''/usr/bin/traceroute'' (timeoutSecs scenarioOptions) ''93.184.216.34''
         (resolveIP scenarioEnv ''93.184.216.34'')"
  have bin: "tracerouteBinary scenarioEnv = Inr ''/usr/bin/traceroute''"
    by (simp add: tracerouteBinary_def scenarioEnv_def quietEnv_def)
  have live: "cancelAt neverCancelled = None" by (simp add: neverCancelled_def)
  have k: "(1::int) \<le> 6" "6 \<le> MaxHops scenarioOptions" by (simp_all add: scenarioOptions_def)
  have own: "\<forall>t\<in>{1..6}. TTL (?P t) = t"
    using scenario_probes by (auto dest!: one_to_six)
  have fin: "looksFinal (resolveIPs scenarioEnv ''93.184.216.34'') (?P 6)"
    using scenario_probes by (simp add: looksFinal_def)
  have low: "\<forall>t\<in>{1..<6}. \<not> looksFinal (resolveIPs scenarioEnv ''93.184.216.34'') (?P t)"
    using scenario_probes scenario_dest by (auto simp: looksFinal_def dest!: one_to_five)
  have six: "[1..6] = [1, 2, 3, 4, 5, 6::int]" by code_simp
  note r = parallel_reconciliation[OF bin k own fin low, of neverCancelled]
  note x = parallel_reconciliation[OF bin k own fin low, of cancelledWhileSending]
  from r live have sent: "fst (runParallel neverCancelled scenarioEnv ''93.184.216.34'' scenarioOptions)
      = map (\<lambda>t. (?P t)\<lparr>IsFinal := (t = 6)\<rparr>) [1..6]" by blast
  have ttls: "map TTL (fst (runParallel neverCancelled scenarioEnv ''93.184.216.34'' scenarioOptions))
      = [1, 2, 3, 4, 5, 6]"
    using scenario_probes by (simp add: sent six)
  have finals: "map IsFinal (fst (runParallel neverCancelled scenarioEnv ''93.184.216.34'' scenarioOptions))
      = [False, False, False, False, False, True]"
    by (simp add: sent six)
  from r have out: "snd (runParallel neverCancelled scenarioEnv ''93.184.216.34'' scenarioOptions)
      = Returns None" by blast
  from x have pre: "prefix (map TTL (fst (runParallel cancelledWhileSending scenarioEnv
      ''93.184.216.34'' scenarioOptions))) [1..6]" by blast
  from x have out': "snd (runParallel cancelledWhileSending scenarioEnv ''93.184.216.34''
      scenarioOptions) = Returns None" by blast
  from ttls finals out pre[unfolded six] out' show ?thesis by blast
qed

text \<open>
  The claim as it stands fails twice.  \<^verbatim>\<open>trueFinalTTL\<close> and the final mark are read
  from the TTL the tool printed, the order of sending from the slot: where the probe
  of TTL 1 is answered with a line of hop 9, the hop sent first carries TTL 9 and
  the final hop sent after it TTL 2.  And the sending loop gives way to
  \<^verbatim>\<open>ctx.Done()\<close>: in the scenario of the specification, cancelled while sending, only
  the hops of the TTLs 1 and 2 are sent, not those of 1 to 6.
\<close>

theorem stray_ttl_breaks_order:
  "map TTL (fst (runParallel neverCancelled strayEnv ''93.184.216.34''
                   \<lparr>MaxHops = 2, TimeoutMs = 3000\<rparr>)) = [9, 2]
   \<and> map IsFinal (fst (runParallel neverCancelled strayEnv ''93.184.216.34''
                   \<lparr>MaxHops = 2, TimeoutMs = 3000\<rparr>)) = [False, True]
   \<and> snd (runParallel neverCancelled strayEnv ''93.184.216.34''
                   \<lparr>MaxHops = 2, TimeoutMs = 3000\<rparr>) = Returns None
   \<and> map TTL (fst (runParallel cancelledWhileSending scenarioEnv ''93.184.216.34''
                   scenarioOptions)) = [1, 2]
   \<and> snd (runParallel cancelledWhileSending scenarioEnv ''93.184.216.34'' scenarioOptions)
       = Returns None"
  by code_simp

section \<open>The parallel strategy: the final mark\<close>

lemma emitLoop_one_final:
  "length (filter IsFinal (fst (emitLoop c t tf rs))) \<le> 1"
proof (induction rs arbitrary: t)
  case Nil
  then show ?case by simp
next
  case (Cons r rs)
  show ?case
  proof (cases r)
    case None
    with Cons show ?thesis by simp
  next
    case (Some h)
    obtain sent dn where e: "emitLoop c (Suc t) tf rs = (sent, dn)"
      by (cases "emitLoop c (Suc t) tf rs") auto
    with Cons[of "Suc t"] have "length (filter IsFinal sent) \<le> 1" by simp
    with Some e show ?thesis by (auto simp: Let_def)
  qed
qed

lemma emitLoop_sent_from:
  "x \<in> set (fst (emitLoop c t tf rs)) \<Longrightarrow>
     \<exists>h\<in>set (got rs). x = h\<lparr>IsFinal := (tf > 0 \<and> TTL h = tf)\<rparr>"
proof (induction rs arbitrary: t)
  case Nil
  then show ?case by simp
next
  case (Cons r rs)
  show ?case
  proof (cases r)
    case None
    with Cons show ?thesis by simp
  next
    case (Some h)
    obtain sent dn where e: "emitLoop c (Suc t) tf rs = (sent, dn)"
      by (cases "emitLoop c (Suc t) tf rs") auto
    from Cons.prems Some e
    have "x = h\<lparr>IsFinal := (tf > 0 \<and> TTL h = tf)\<rparr> \<or> x \<in> set sent"
      by (auto simp: Let_def split: if_splits)
    then show ?thesis
    proof
      assume "x = h\<lparr>IsFinal := (tf > 0 \<and> TTL h = tf)\<rparr>"
      with Some show ?thesis by simp
    next
      assume "x \<in> set sent"
      with e Cons.IH[of "Suc t"] Some show ?thesis by auto
    qed
  qed
qed

lemma trueFinalTTL_from:
  "trueFinalTTL D rs \<noteq> 0 \<Longrightarrow> \<exists>h\<in>set (got rs). looksFinal D h \<and> TTL h = trueFinalTTL D rs"
proof (induction rs)
  case Nil
  then show ?case by simp
next
  case (Cons r rs)
  then show ?case by (cases r) (auto split: if_splits)
qed

text \<open>
  Claim C2, amended.  In every parallel run, cancelled or not, at most one hop sent
  is marked final.  Where the hops collected carry pairwise distinct TTLs (as they
  do when each probe reports the TTL it was started with), every hop sent that is
  marked final has succeeded.
\<close>

theorem parallel_final_flags:
  "length (filter IsFinal (fst (runParallel c e dest opts))) \<le> 1
   \<and> ((\<forall>binary. tracerouteBinary e = Inr binary \<longrightarrow>
          distinct (map TTL (got (collect c e binary dest opts))))
       \<longrightarrow> (\<forall>h\<in>set (fst (runParallel c e dest opts)). IsFinal h \<longrightarrow> Success h))"
proof (cases "tracerouteBinary e")
  case (Inl err)
  then show ?thesis by (simp add: runParallel_def)
next
  case (Inr binary)
  show ?thesis
  proof (cases "MaxHops opts < 0")
    case True
    with Inr show ?thesis by (simp add: runParallel_def)
  next
    case False
    let ?rs = "collect c e binary dest opts"
    let ?tf = "trueFinalTTL (resolveIPs e dest) ?rs"
    let ?em = "emitLoop c (nat (MaxHops opts)) ?tf ?rs"
    have sent: "fst (runParallel c e dest opts) = fst ?em"
      using Inr False by (simp add: runParallel_def Let_def split: prod.splits)
    have one: "length (filter IsFinal (fst (runParallel c e dest opts))) \<le> 1"
      unfolding sent by (rule emitLoop_one_final)
    have succ: "\<forall>h\<in>set (fst ?em). IsFinal h \<longrightarrow> Success h"
      if d: "distinct (map TTL (got ?rs))"
    proof (intro ballI impI)
      fix x assume x: "x \<in> set (fst ?em)" and f: "IsFinal x"
      from emitLoop_sent_from[OF x] obtain h where
        h: "h \<in> set (got ?rs)" "x = h\<lparr>IsFinal := (?tf > 0 \<and> TTL h = ?tf)\<rparr>" by blast
      with f have tf: "?tf > 0" "TTL h = ?tf" by auto
      then have "?tf \<noteq> 0" by simp
      from trueFinalTTL_from[OF this] obtain g where
        g: "g \<in> set (got ?rs)" "looksFinal (resolveIPs e dest) g" "TTL g = ?tf" by blast
      from d have inj: "inj_on TTL (set (got ?rs))" by (simp add: distinct_map)
      from tf(2) g(3) have eq: "TTL h = TTL g" by simp
      from inj eq h(1) g(1) have "h = g" by (rule inj_onD)
      with g(2) h(2) show "Success x" by (simp add: looksFinal_def)
    qed
    from one succ sent Inr show ?thesis by simp
  qed
qed

lemma scenario_sent:
  "map (\<lambda>h. (TTL h, Success h, IsFinal h))
       (fst (runParallel neverCancelled scenarioEnv ''93.184.216.34'' scenarioOptions))
     = [(1, True, False), (2, True, False), (3, True, False), (4, True, False),
        (5, True, False), (6, True, True)]"
  by code_simp

lemma scenario_distinct:
  "distinct (map TTL (got (collect neverCancelled scenarioEnv ''/usr/bin/traceroute''
                             ''93.184.216.34'' scenarioOptions)))"
  by code_simp

text \<open>In the scenario of the specification the TTLs collected are distinct, one hop
  sent is marked final, and it has succeeded.\<close>

theorem parallel_final_flags_witness:
  "length (filter IsFinal (fst (runParallel neverCancelled scenarioEnv ''93.184.216.34''
                                  scenarioOptions))) \<le> 1
   \<and> distinct (map TTL (got (collect neverCancelled scenarioEnv ''/usr/bin/traceroute''
                             ''93.184.216.34'' scenarioOptions)))
   \<and> (\<exists>h\<in>set (fst (runParallel neverCancelled scenarioEnv ''93.184.216.34'' scenarioOptions)).
         IsFinal h \<and> Success h)"
proof -
  let ?sent = "fst (runParallel neverCancelled scenarioEnv ''93.184.216.34'' scenarioOptions)"
  have bin: "tracerouteBinary scenarioEnv = Inr ''/usr/bin/traceroute''"
    by (simp add: tracerouteBinary_def scenarioEnv_def quietEnv_def)
  have d: "\<forall>binary. tracerouteBinary scenarioEnv = Inr binary \<longrightarrow>
      distinct (map TTL (got (collect neverCancelled scenarioEnv binary ''93.184.216.34'' scenarioOptions)))"
    using scenario_distinct by (simp add: bin)
  note r = parallel_final_flags[of neverCancelled scenarioEnv "''93.184.216.34''" scenarioOptions]
  from r d have s: "\<forall>h\<in>set ?sent. IsFinal h \<longrightarrow> Success h" by blast
  have "(6, True, True) \<in> set (map (\<lambda>h. (TTL h, Success h, IsFinal h)) ?sent)"
    by (simp add: scenario_sent)
  then obtain h where "h \<in> set ?sent" "IsFinal h" by auto
  with s have "\<exists>h\<in>set ?sent. IsFinal h \<and> Success h" by blast
  with r scenario_distinct show ?thesis by blast
qed

text \<open>
  Without distinct TTLs the second half fails.  The probe of TTL 1 reports a timeout
  for hop 2, the probe of TTL 2 reaches the destination at hop 2: \<^verbatim>\<open>trueFinalTTL\<close> is 2,
  and the timeout hop of the first slot, whose TTL is 2 as well, is marked final
  and sent.
\<close>

theorem final_without_success:
  "map IsFinal (fst (runParallel neverCancelled strayTimeoutEnv ''93.184.216.34''
                       \<lparr>MaxHops = 2, TimeoutMs = 3000\<rparr>)) = [True]
   \<and> map Success (fst (runParallel neverCancelled strayTimeoutEnv ''93.184.216.34''
                       \<lparr>MaxHops = 2, TimeoutMs = 3000\<rparr>)) = [False]"
  by code_simp

section \<open>The parallel strategy: no answer at all\<close>

lemma parseUnixLine_ok:
  "snd (parseUnixLine pf line d) \<Longrightarrow>
     Success (fst (parseUnixLine pf line d)) \<or> IsTimeout (fst (parseUnixLine pf line d))"
  by (auto simp: parseUnixLine_def parseUnixHop_def timeoutHop_def split: option.splits if_splits)

lemma firstHop_cases:
  "firstHop pf d ls = zeroHop \<or> Success (firstHop pf d ls) \<or> IsTimeout (firstHop pf d ls)"
proof (induction ls)
  case Nil
  then show ?case by simp
next
  case (Cons l ls)
  obtain h ok where p: "parseUnixLine pf (TrimSpace l) d = (h, ok)"
    by (cases "parseUnixLine pf (TrimSpace l) d") auto
  with parseUnixLine_ok[of pf "TrimSpace l" d] have "ok \<longrightarrow> Success h \<or> IsTimeout h" by simp
  with Cons p show ?case by (cases ok) (auto simp: Let_def)
qed

lemma firstHop_none:
  "\<forall>l\<in>set ls. \<not> snd (parseUnixLine pf (TrimSpace l) d) \<Longrightarrow> firstHop pf d ls = zeroHop"
proof (induction ls)
  case Nil
  then show ?case by simp
next
  case (Cons l ls)
  obtain h ok where p: "parseUnixLine pf (TrimSpace l) d = (h, ok)"
    by (cases "parseUnixLine pf (TrimSpace l) d") auto
  with Cons show ?case by (cases ok) (auto simp: Let_def)
qed

lemma reverseDNS_unsuccessful: "\<not> Success h \<Longrightarrow> reverseDNS e h = h"
  by (simp add: reverseDNS_def)

lemma probe_synthesized:
  "firstHop (ParseFloat e) d (splitLines (Output e b (probeArgs ttl secs dest))) = zeroHop
     \<Longrightarrow> probe e b secs dest d ttl = timeoutHop ttl"
  by (simp add: probe_def Let_def zeroHop_def reverseDNS_unsuccessful timeoutHop_def)

lemma probe_cases:
  "Success (probe e b secs dest d ttl) \<or> IsTimeout (probe e b secs dest d ttl)"
  using firstHop_cases[of "ParseFloat e" d "splitLines (Output e b (probeArgs ttl secs dest))"]
  by (auto simp: probe_def Let_def timeoutHop_def zeroHop_def reverseDNS_fields)

lemma keep_unmarked: "\<not> IsFinal h \<Longrightarrow> h\<lparr>IsFinal := False\<rparr> = h"
  by simp

text \<open>
  Claim C3, amended.  In a parallel run that is not cancelled, with \<open>MaxHops \<ge> 0\<close>,
  in which no probe succeeds: the run returns \<^verbatim>\<open>ErrMaxHopsReached\<close>, and exactly the
  \<open>MaxHops\<close> hops of the probes are sent, in the order of the probes, each a timeout
  that has not succeeded and is not final.  Where every probe's hop carries the TTL
  it was probed with, these are one hop for each TTL from 1 to \<open>MaxHops\<close>.  A probe
  none of whose output lines is accepted by the parser yields the synthesized
  timeout hop of its TTL.
\<close>

theorem parallel_all_timeouts:
  assumes bin: "tracerouteBinary e = Inr binary"
    and live: "cancelAt c = None"
    and m: "0 \<le> MaxHops opts"
    and none: "\<forall>t\<in>{1..MaxHops opts}.
        \<not> Success (probe e binary (timeoutSecs opts) dest (resolveIP e dest) t)"
  shows "runParallel c e dest opts =
           (map (probe e binary (timeoutSecs opts) dest (resolveIP e dest)) [1..MaxHops opts],
            Returns (Some ErrMaxHopsReached))
     \<and> length (fst (runParallel c e dest opts)) = nat (MaxHops opts)
     \<and> (\<forall>h\<in>set (fst (runParallel c e dest opts)). IsTimeout h \<and> \<not> Success h \<and> \<not> IsFinal h)
     \<and> ((\<forall>t\<in>{1..MaxHops opts}.
            TTL (probe e binary (timeoutSecs opts) dest (resolveIP e dest) t) = t)
          \<longrightarrow> map TTL (fst (runParallel c e dest opts)) = [1..MaxHops opts])
     \<and> (\<forall>t. (\<forall>l\<in>set (splitLines (Output e binary (probeArgs t (timeoutSecs opts) dest))).
                \<not> snd (parseUnixLine (ParseFloat e) (TrimSpace l) (resolveIP e dest)))
           \<longrightarrow> probe e binary (timeoutSecs opts) dest (resolveIP e dest) t = timeoutHop t)"
proof -
  let ?P = "probe e binary (timeoutSecs opts) dest (resolveIP e dest)"
  let ?D = "resolveIPs e dest"
  let ?hs = "map ?P [1..MaxHops opts]"
  have rs: "collect c e binary dest opts = map Some ?hs"
    using live by (simp add: collect_def launchLoop_live comp_def)
  have flags: "\<forall>h\<in>set ?hs. IsTimeout h \<and> \<not> Success h \<and> \<not> IsFinal h"
  proof
    fix h assume "h \<in> set ?hs"
    then obtain t where t: "t \<in> {1..MaxHops opts}" "h = ?P t" by auto
    with none have s: "\<not> Success h" by simp
    with probe_cases[of e binary "timeoutSecs opts" dest "resolveIP e dest" t] t
    have "IsTimeout h" by simp
    moreover from s probe_flags[of e binary "timeoutSecs opts" dest "resolveIP e dest" t] t
    have "\<not> IsFinal h" by simp
    ultimately show "IsTimeout h \<and> \<not> Success h \<and> \<not> IsFinal h" using s by simp
  qed
  then have nf: "\<forall>h\<in>set ?hs. \<not> looksFinal ?D h" by (simp add: looksFinal_def)
  have tf: "trueFinalTTL ?D (collect c e binary dest opts) = 0"
    unfolding rs by (rule trueFinalTTL_none[OF nf])
  have "emitLoop c (nat (MaxHops opts)) 0 (map Some ?hs) = (map (\<lambda>h. h\<lparr>IsFinal := False\<rparr>) ?hs, False)"
    by (rule emitLoop_no_final[OF live]) simp
  moreover have "map (\<lambda>h. h\<lparr>IsFinal := False\<rparr>) ?hs = ?hs"
  proof (rule map_idI)
    fix h assume "h \<in> set ?hs"
    with flags have "\<not> IsFinal h" by blast
    then show "h\<lparr>IsFinal := False\<rparr> = h" by (rule keep_unmarked)
  qed
  ultimately have em: "emitLoop c (nat (MaxHops opts)) 0 (collect c e binary dest opts) = (?hs, False)"
    by (simp add: rs)
  have run: "runParallel c e dest opts = (?hs, Returns (Some ErrMaxHopsReached))"
    using bin m live by (simp add: runParallel_def Let_def tf em ctxErr_never)
  have len: "length ?hs = nat (MaxHops opts)" using m by simp
  have ttl: "map TTL ?hs = [1..MaxHops opts]"
    if "\<forall>t\<in>{1..MaxHops opts}. TTL (?P t) = t"
    unfolding map_map using that by (intro map_idI) simp
  have syn: "\<forall>t. (\<forall>l\<in>set (splitLines (Output e binary (probeArgs t (timeoutSecs opts) dest))).
                \<not> snd (parseUnixLine (ParseFloat e) (TrimSpace l) (resolveIP e dest)))
           \<longrightarrow> ?P t = timeoutHop t"
    by (intro allI impI probe_synthesized firstHop_none)
  from run len ttl flags syn show ?thesis by (simp del: length_map map_map)
qed

lemma timeout_probes:
  "map (probe timeoutEnv ''/usr/bin/traceroute'' (timeoutSecs timeoutOptions) ''example.com''
         (resolveIP timeoutEnv ''example.com'')) [1, 2, 3]
     = [timeoutHop 1, timeoutHop 2, timeoutHop 3]"
  by code_simp

lemma one_to_three: "(t::int) \<in> {1..3} \<Longrightarrow> t \<in> set [1, 2, 3]"
  by (simp; presburger)

text \<open>The second scenario of the specification: three timeout hops, of the TTLs 1, 2
  and 3, and \<^verbatim>\<open>ErrMaxHopsReached\<close>.\<close>

theorem parallel_all_timeouts_witness:
  "map TTL (fst (runParallel neverCancelled timeoutEnv ''example.com'' timeoutOptions)) = [1, 2, 3]
   \<and> list_all IsTimeout (fst (runParallel neverCancelled timeoutEnv ''example.com'' timeoutOptions))
   \<and> length (fst (runParallel neverCancelled timeoutEnv ''example.com'' timeoutOptions)) = 3
   \<and> snd (runParallel neverCancelled timeoutEnv ''example.com'' timeoutOptions)
       = Returns (Some ErrMaxHopsReached)"
proof -
  let ?P = "probe timeoutEnv ''/usr/bin/traceroute'' (timeoutSecs timeoutOptions) ''example.com''
         (resolveIP timeoutEnv ''example.com'')"
  let ?sent = "fst (runParallel neverCancelled timeoutEnv ''example.com'' timeoutOptions)"
  have bin: "tracerouteBinary timeoutEnv = Inr ''/usr/bin/traceroute''"
    by (simp add: tracerouteBinary_def timeoutEnv_def quietEnv_def)
  have live: "cancelAt neverCancelled = None" by (simp add: neverCancelled_def)
  have m: "0 \<le> MaxHops timeoutOptions" and m3: "MaxHops timeoutOptions = 3"
    by (simp_all add: timeoutOptions_def)
  have none: "\<forall>t\<in>{1..MaxHops timeoutOptions}. \<not> Success (?P t)"
    unfolding m3 using timeout_probes by (auto simp: timeoutHop_def dest!: one_to_three)
  have own: "\<forall>t\<in>{1..MaxHops timeoutOptions}. TTL (?P t) = t"
    unfolding m3 using timeout_probes by (auto simp: timeoutHop_def dest!: one_to_three)
  have three: "[1..3] = [1, 2, 3::int]" by code_simp
  note r = parallel_all_timeouts[OF bin live m none]
  from r own have "map TTL ?sent = [1..MaxHops timeoutOptions]" by blast
  then have ttls: "map TTL ?sent = [1, 2, 3]" by (simp only: m3 three)
  from r have "length ?sent = nat (MaxHops timeoutOptions)" by blast
  then have len: "length ?sent = 3" by (simp add: m3)
  from r have "\<forall>h\<in>set ?sent. IsTimeout h \<and> \<not> Success h \<and> \<not> IsFinal h" by blast
  then have tos: "list_all IsTimeout ?sent" by (simp only: list_all_iff) blast
  from r have out: "snd (runParallel neverCancelled timeoutEnv ''example.com'' timeoutOptions)
      = Returns (Some ErrMaxHopsReached)"
    by (metis snd_conv)
  from ttls tos len out show ?thesis by blast
qed

text \<open>
  "One for each TTL" fails where a probe's line reports another hop: with
  \<open>MaxHops = 1\<close> the only probe reports a timeout for hop 2, and the one hop sent
  carries TTL 2.
\<close>

theorem stray_timeout_ttl:
  "map TTL (fst (runParallel neverCancelled strayTimeoutEnv ''93.184.216.34''
                   \<lparr>MaxHops = 1, TimeoutMs = 3000\<rparr>)) = [2]
   \<and> map Success (fst (runParallel neverCancelled strayTimeoutEnv ''93.184.216.34''
                   \<lparr>MaxHops = 1, TimeoutMs = 3000\<rparr>)) = [False]
   \<and> snd (runParallel neverCancelled strayTimeoutEnv ''93.184.216.34''
                   \<lparr>MaxHops = 1, TimeoutMs = 3000\<rparr>) = Returns (Some ErrMaxHopsReached)"
  by code_simp

section \<open>The scanning loop, line by line\<close>

text \<open>While the context is live, the hops the scanning loop sends are the parser's
  values at the lines it does not skip, up to the first final one.\<close>

lemma scanLoop_live_sent:
  "cancelAt c = None \<Longrightarrow>
     fst (scanLoop c w pf d t lt lines) =
       uptoFinal (map fst (filter snd (map (\<lambda>l. platformParse w pf l d)
                                          (filter (\<lambda>l. \<not> skipped l) lines))))"
proof (induction lines arbitrary: t lt)
  case Nil
  then show ?case by simp
next
  case (Cons line rest)
  note live = Cons.prems
  show ?case
  proof (cases "skipped line")
    case True
    then have "scanLoop c w pf d t lt (line # rest) = scanLoop c w pf d (Suc t) lt rest"
      using live by (simp add: skipped_def ctxErr_never)
    with Cons.IH[OF live, of "Suc t" lt] True show ?thesis by simp
  next
    case False
    obtain hop ok where p: "platformParse w pf line d = (hop, ok)"
      by (cases "platformParse w pf line d") auto
    let ?lt2 = "if TTL hop > lt then TTL hop else lt"
    from p have p': "(if w then parseWindowsLine pf line d else parseUnixLine pf line d) = (hop, ok)"
      by (simp add: platformParse_def)
    show ?thesis
    proof (cases ok)
      case nok: False
      have "scanLoop c w pf d t lt (line # rest) = scanLoop c w pf d (Suc t) lt rest"
        using live False p' nok by (simp add: skipped_def ctxErr_never)
      with Cons.IH[OF live, of "Suc t" lt] False p nok show ?thesis by simp
    next
      case True
      show ?thesis
      proof (cases "IsFinal hop")
        case fin: True
        have "scanLoop c w pf d t lt (line # rest) = ([hop], Left True ?lt2)"
          using live False p' True fin by (simp add: skipped_def Let_def ctxErr_never)
        with False p True fin show ?thesis by simp
      next
        case nf: False
        have "fst (scanLoop c w pf d t lt (line # rest))
            = hop # fst (scanLoop c w pf d (Suc t) ?lt2 rest)"
          using live False p' True nf
          by (simp add: skipped_def Let_def ctxErr_never split: prod.splits)
        with Cons.IH[OF live, of "Suc t" ?lt2] False p True nf show ?thesis by simp
      qed
    qed
  qed
qed

end
